theory Spec2Isabelle
  imports Complex_Main
begin

section \<open>Strings and POSIX paths as the helpers use them\<close>

text \<open>
  The helpers of \<^verbatim>\<open>src/MCP/agent-mcp/server.py\<close> work on Python strings. A string is
  a \<^typ>\<open>string\<close>; the only characters the helpers inspect are ASCII ones
  (\<^verbatim>\<open>/ \ : . *\<close>), so the encoding of other characters does not matter.
\<close>

datatype py_error = ValueError | OSError | BadZipFile

text \<open>\<^verbatim>\<open>s.replace("\\", "/")\<close>\<close>

definition to_posix :: "string \<Rightarrow> string" where
  "to_posix s = map (\<lambda>c. if c = CHR 0x5C then CHR ''/'' else c) s"

text \<open>\<^verbatim>\<open>s.lstrip("/")\<close>\<close>

definition lstrip_slash :: "string \<Rightarrow> string" where
  "lstrip_slash s = dropWhile (\<lambda>c. c = CHR ''/'') s"

text \<open>\<^verbatim>\<open>s.startswith(p)\<close> and \<^verbatim>\<open>s.endswith(p)\<close>\<close>

definition startswith :: "string \<Rightarrow> string \<Rightarrow> bool" where
  "startswith s p = (take (length p) s = p)"

definition endswith :: "string \<Rightarrow> string \<Rightarrow> bool" where
  "endswith s p = (length p \<le> length s \<and> drop (length s - length p) s = p)"

text \<open>\<^verbatim>\<open>s.split(c)\<close>: never empty, \<^verbatim>\<open>"".split("/") == [""]\<close>.\<close>

fun split_on :: "char \<Rightarrow> string \<Rightarrow> string list" where
  "split_on c [] = [[]]"
| "split_on c (x # xs) =
     (if x = c then [] # split_on c xs
      else (case split_on c xs of
              [] \<Rightarrow> [[x]]
            | seg # segs \<Rightarrow> (x # seg) # segs))"

text \<open>\<^verbatim>\<open>"/".join(parts)\<close>\<close>

fun join_slash :: "string list \<Rightarrow> string" where
  "join_slash [] = []"
| "join_slash [p] = p"
| "join_slash (p # q # ps) = p @ CHR ''/'' # join_slash (q # ps)"

text \<open>
  \<^verbatim>\<open>PurePosixPath(s).parts\<close> (pathlib, \<^verbatim>\<open>parse_parts\<close> with \<^verbatim>\<open>splitroot\<close>): the
  segments between slashes without the empty ones and without \<^verbatim>\<open>"."\<close>; a path that
  begins with a slash has its root as the first part, which is \<^verbatim>\<open>"//"\<close> for exactly
  two leading slashes and \<^verbatim>\<open>"/"\<close> otherwise.
\<close>

definition posix_root :: "string \<Rightarrow> string" where
  "posix_root s =
     (if \<not> startswith s ''/'' then ''''
      else if length s - length (lstrip_slash s) = 2 then ''//''
      else ''/'')"

definition posix_rel_parts :: "string \<Rightarrow> string list" where
  "posix_rel_parts s = filter (\<lambda>x. x \<noteq> [] \<and> x \<noteq> ''.'') (split_on CHR ''/'' s)"

definition posix_parts :: "string \<Rightarrow> string list" where
  "posix_parts s =
     (if posix_root s = [] then posix_rel_parts s
      else posix_root s # posix_rel_parts s)"

text \<open>
  \<^verbatim>\<open>PurePosixPath(name).match(pat)\<close> (pathlib, Python 3.11). The match of one path
  segment against one pattern segment is \<^verbatim>\<open>fnmatch.fnmatchcase\<close>, a function of the
  standard library: it is the parameter \<open>fnm\<close> of the model.
\<close>

type_synonym fnmatch = "string \<Rightarrow> string \<Rightarrow> bool"

definition pure_posix_match :: "fnmatch \<Rightarrow> string \<Rightarrow> string \<Rightarrow> py_error + bool" where
  "pure_posix_match fnm name pat =
     (let pat_parts = posix_parts pat; parts = posix_parts name in
      if pat_parts = [] then Inl ValueError
      else if posix_root pat \<noteq> [] \<and> posix_root pat \<noteq> posix_root name then Inr False
      else if posix_root pat \<noteq> [] then
        (if length pat_parts \<noteq> length parts then Inr False
         else Inr (list_all (\<lambda>(part, p). fnm part p) (zip (rev parts) (rev (tl pat_parts)))))
      else if length pat_parts > length parts then Inr False
      else Inr (list_all (\<lambda>(part, p). fnm part p) (zip (rev parts) (rev pat_parts))))"

text \<open>
  Where a concrete segment matcher is needed (to run the model on an example), \<open>glob_seg\<close>
  stands in for \<^verbatim>\<open>fnmatchcase\<close>: \<^verbatim>\<open>*\<close> matches any run of characters, \<^verbatim>\<open>?\<close> one
  character, every other character itself. The bracket expressions of \<^verbatim>\<open>fnmatch\<close> are
  not part of it. The general theorems below hold for every segment matcher.
\<close>

fun glob_seg :: "string \<Rightarrow> string \<Rightarrow> bool" where
  "glob_seg [] [] = True"
| "glob_seg (c # cs) [] = False"
| "glob_seg [] (p # ps) = (p = CHR ''*'' \<and> glob_seg [] ps)"
| "glob_seg (c # cs) (p # ps) =
     (if p = CHR ''*'' then glob_seg (c # cs) ps \<or> glob_seg cs (p # ps)
      else (p = CHR ''?'' \<or> p = c) \<and> glob_seg cs ps)"

section \<open>The pattern matcher\<close>

text \<open>
  \<^verbatim>\<open>_match_zip_patterns\<close> (server.py, lines 232-253). The loop over the patterns is
  \<open>match_loop\<close>; \<open>name\<close> is the entry name after normalisation. A pattern that is
  the empty string is skipped; a pattern that normalises to an empty path pattern (such
  as \<^verbatim>\<open>"/"\<close> or \<^verbatim>\<open>"."\<close>) makes \<^verbatim>\<open>PurePosixPath.match\<close> raise \<^verbatim>\<open>ValueError\<close>,
  which the matcher does not catch.
\<close>

fun match_loop :: "fnmatch \<Rightarrow> string \<Rightarrow> string list \<Rightarrow> py_error + bool" where
  "match_loop fnm name [] = Inr False"
| "match_loop fnm name (pattern # rest) =
     (if pattern = [] then match_loop fnm name rest
      else
        (let pat = lstrip_slash (to_posix pattern) in
         if pat = ''**'' \<or> pat = ''**/*'' then Inr True
         else if endswith pat ''/**'' \<and>
                 (let prefix = take (length pat - length ''/**'') pat in
                  name = prefix \<or> startswith name (prefix @ ''/''))
         then Inr True
         else
           (case pure_posix_match fnm name pat of
              Inl e \<Rightarrow> Inl e
            | Inr True \<Rightarrow> Inr True
            | Inr False \<Rightarrow> match_loop fnm name rest)))"

definition match_zip_patterns :: "fnmatch \<Rightarrow> string \<Rightarrow> string list \<Rightarrow> py_error + bool" where
  "match_zip_patterns fnm entry_name patterns =
     (if patterns = [] then Inr False
      else match_loop fnm (lstrip_slash (to_posix entry_name)) patterns)"

section \<open>The name check and the extraction engine\<close>

text \<open>
  \<^verbatim>\<open>_safe_zip_member_name\<close> (server.py, lines 256-267): \<open>None\<close> for an unsafe
  name, otherwise the parts joined by slashes.
\<close>

definition safe_zip_member_name :: "string \<Rightarrow> string option" where
  "safe_zip_member_name name =
     (let n = to_posix name in
      if n = [] \<or> startswith n ''/'' \<or> startswith n [CHR 0x5C] then None
      else if (case split_on CHR ''/'' n of [] \<Rightarrow> False | seg # _ \<Rightarrow> CHR '':'' \<in> set seg)
      then None
      else
        (let parts = posix_parts n in
         if ''..'' \<in> set parts then None else Some (join_slash parts)))"

text \<open>
  An archive is the list \<^verbatim>\<open>zf.infolist()\<close> of its members in archive order; a member
  is a \<^verbatim>\<open>ZipInfo\<close>, with the answer of its \<^verbatim>\<open>is_dir()\<close> method as a field.
\<close>

record zip_info =
  filename :: string
  file_size :: nat
  compress_size :: nat
  info_is_dir :: bool

text \<open>
  A \<^verbatim>\<open>pathlib.Path\<close> is the list of its components (POSIX flavour):
  \<^verbatim>\<open>root.joinpath(*parts)\<close> with relative parts appends them, \<^verbatim>\<open>p.parent\<close> drops the
  last component and \<^verbatim>\<open>p.parents\<close> lists the proper prefixes, nearest first.
\<close>

type_synonym path = "string list"

definition joinpath :: "path \<Rightarrow> string list \<Rightarrow> path" where
  "joinpath out_root parts = out_root @ parts"

definition parent :: "path \<Rightarrow> path" where
  "parent p = butlast p"

definition parents :: "path \<Rightarrow> path list" where
  "parents p = map (\<lambda>n. take n p) (rev [0..<length p])"

text \<open>
  What the extraction asks of the file system, each tagged with the raw name of the
  member it is done for. The file system is a parameter: \<open>resolve_path\<close> is
  \<^verbatim>\<open>Path.resolve(strict=False)\<close> (it depends on the working directory and on
  symbolic links), and \<open>fs_fails\<close> says which operations the operating system
  refuses, raising \<^verbatim>\<open>OSError\<close>.
\<close>

datatype fs_event =
    RootMkdir path
  | ResolveDest string path
  | ParentMkdir string path
  | CopyMember string path

record fs_env =
  resolve_path :: "path \<Rightarrow> path"
  fs_fails :: "fs_event \<Rightarrow> bool"

record zip_warning =
  w_type :: string
  w_entry :: string
  w_reason :: string

record extract_state =
  extracted_files :: "path list"
  warnings :: "zip_warning list"
  fs_log :: "fs_event list"

text \<open>
  The loop of \<^verbatim>\<open>_extract_zip_members\<close> (server.py, lines 999-1036). The result is the
  exception that ended the loop, if any, and the state reached.
\<close>

fun extract_loop ::
  "fnmatch \<Rightarrow> fs_env \<Rightarrow> path \<Rightarrow> path \<Rightarrow> string list \<Rightarrow> zip_info list \<Rightarrow> extract_state
     \<Rightarrow> py_error option \<times> extract_state" where
  "extract_loop fnm env out_root root_resolved patterns [] st = (None, st)"
| "extract_loop fnm env out_root root_resolved patterns (info # rest) st =
     (let raw_name = to_posix (filename info) in
      case safe_zip_member_name raw_name of
        None \<Rightarrow>
          extract_loop fnm env out_root root_resolved patterns rest
            (st\<lparr>warnings := warnings st @
               [\<lparr>w_type = ''zip_slip_skipped'', w_entry = raw_name,
                 w_reason = ''unsafe_member_name''\<rparr>]\<rparr>)
      | Some safe_name \<Rightarrow>
          if info_is_dir info then extract_loop fnm env out_root root_resolved patterns rest st
          else
            (case match_zip_patterns fnm safe_name patterns of
               Inl e \<Rightarrow> (Some e, st)
             | Inr False \<Rightarrow> extract_loop fnm env out_root root_resolved patterns rest st
             | Inr True \<Rightarrow>
                 (let parts = posix_parts safe_name;
                      dest = joinpath out_root parts;
                      dest_resolved = resolve_path env dest;
                      st1 = st\<lparr>fs_log := fs_log st @ [ResolveDest raw_name dest]\<rparr>
                  in
                  if dest_resolved \<noteq> root_resolved \<and> root_resolved \<notin> set (parents dest_resolved)
                  then
                    extract_loop fnm env out_root root_resolved patterns rest
                      (st1\<lparr>warnings := warnings st1 @
                         [\<lparr>w_type = ''zip_slip_skipped'', w_entry = raw_name,
                           w_reason = ''path_escapes_output_dir''\<rparr>]\<rparr>)
                  else
                    (let st2 = st1\<lparr>fs_log := fs_log st1 @ [ParentMkdir raw_name (parent dest)]\<rparr> in
                     if fs_fails env (ParentMkdir raw_name (parent dest)) then (Some OSError, st2)
                     else
                       (let st3 = st2\<lparr>fs_log := fs_log st2 @ [CopyMember raw_name dest]\<rparr> in
                        if fs_fails env (CopyMember raw_name dest) then (Some OSError, st3)
                        else
                          extract_loop fnm env out_root root_resolved patterns rest
                            (st3\<lparr>extracted_files := extracted_files st3 @ [dest_resolved]\<rparr>))))))"

text \<open>
  \<^verbatim>\<open>_extract_zip_members\<close> (server.py, lines 985-1041) on an opened archive: the
  destination is created and resolved once, then the members are processed in order.
  The Python function returns the two lists when no exception ended it.
\<close>

definition extract_zip_members ::
  "fnmatch \<Rightarrow> fs_env \<Rightarrow> string list \<Rightarrow> path \<Rightarrow> zip_info list \<Rightarrow> py_error option \<times> extract_state" where
  "extract_zip_members fnm env patterns out_root infos =
     (let st0 = \<lparr>extracted_files = [], warnings = [], fs_log = [RootMkdir out_root]\<rparr> in
      if fs_fails env (RootMkdir out_root) then (Some OSError, st0)
      else
        (let root_resolved = resolve_path env out_root in
         extract_loop fnm env out_root root_resolved patterns infos st0))"

section \<open>The manifest builder\<close>

record manifest_entry =
  m_name :: string
  m_size :: nat
  m_compressed_size :: nat
  m_is_dir :: bool

record zip_manifest =
  entries :: "manifest_entry list"
  matched_entries :: "manifest_entry list"

text \<open>
  The loop of \<^verbatim>\<open>_build_zip_manifest\<close> (server.py, lines 967-977): every member is
  listed, and the ones whose normalised stored name matches are listed again as matched.
\<close>

fun manifest_loop ::
  "fnmatch \<Rightarrow> string list \<Rightarrow> zip_info list \<Rightarrow> zip_manifest \<Rightarrow> py_error + zip_manifest" where
  "manifest_loop fnm patterns [] m = Inr m"
| "manifest_loop fnm patterns (info # rest) m =
     (let name = to_posix (filename info);
          entry = \<lparr>m_name = name, m_size = file_size info,
                   m_compressed_size = compress_size info, m_is_dir = info_is_dir info\<rparr>;
          m1 = m\<lparr>entries := entries m @ [entry]\<rparr>
      in
      case match_zip_patterns fnm name patterns of
        Inl e \<Rightarrow> Inl e
      | Inr True \<Rightarrow> manifest_loop fnm patterns rest (m1\<lparr>matched_entries := matched_entries m1 @ [entry]\<rparr>)
      | Inr False \<Rightarrow> manifest_loop fnm patterns rest m1)"

definition build_zip_manifest ::
  "fnmatch \<Rightarrow> string list \<Rightarrow> zip_info list \<Rightarrow> py_error + zip_manifest" where
  "build_zip_manifest fnm patterns infos =
     manifest_loop fnm patterns infos \<lparr>entries = [], matched_entries = []\<rparr>"

section \<open>Status payloads and the pointer resolver\<close>

text \<open>
  A status payload is parsed JSON. A \<^verbatim>\<open>dict\<close> is an association list read with
  \<^const>\<open>map_of\<close> (\<^verbatim>\<open>d.get(k)\<close>); a number is an integer or a float.
\<close>

datatype json =
    JNull
  | JBool bool
  | JInt int
  | JFloat real
  | JStr string
  | JList "json list"
  | JDict "(string \<times> json) list"

type_synonym py_dict = "(string \<times> json) list"

text \<open>
  \<^verbatim>\<open>s.lower()\<close> and \<^verbatim>\<open>s.strip()\<close> on the ASCII characters. (Python lowercases and strips by
  Unicode tables; no other character lowercases to a letter of \<^verbatim>\<open>zip\<close> or of a terminal
  status, and the white space outside ASCII is not represented.)
\<close>

definition ascii_lower :: "char \<Rightarrow> char" where
  "ascii_lower c =
     (let n = (of_char c :: nat) in if 65 \<le> n \<and> n \<le> 90 then char_of (n + 32) else c)"

definition lower :: "string \<Rightarrow> string" where
  "lower s = map ascii_lower s"

definition is_space :: "char \<Rightarrow> bool" where
  "is_space c = (let n = (of_char c :: nat) in (9 \<le> n \<and> n \<le> 13) \<or> (28 \<le> n \<and> n \<le> 32))"

definition strip :: "string \<Rightarrow> string" where
  "strip s = rev (dropWhile is_space (rev (dropWhile is_space s)))"

text \<open>
  \<^verbatim>\<open>x if isinstance(x, str) and x.strip() else None\<close>, the test the resolver applies to
  every URL and expiry it reads.
\<close>

definition nonblank_str :: "json option \<Rightarrow> string option" where
  "nonblank_str v =
     (case v of
        Some (JStr s) \<Rightarrow> if strip s \<noteq> [] then Some s else None
      | _ \<Rightarrow> None)"

text \<open>
  \<^verbatim>\<open>str(bd.get("type", "")).lower() == "zip"\<close>: \<^verbatim>\<open>str\<close> of a JSON value that is not a
  string is \<^verbatim>\<open>None\<close>, \<^verbatim>\<open>True\<close>, \<^verbatim>\<open>False\<close>, a numeral or a bracketed text, and the default
  is the empty string; none of them lowercases to \<^verbatim>\<open>zip\<close>.
\<close>

definition type_is_zip :: "py_dict \<Rightarrow> bool" where
  "type_is_zip bd =
     (case map_of bd ''type'' of
        Some (JStr t) \<Rightarrow> lower t = ''zip''
      | _ \<Rightarrow> False)"

text \<open>\<^verbatim>\<open>isinstance(dl, str) and dl.lower().endswith(".zip")\<close> for \<^verbatim>\<open>dl = bd.get("downloadUrl")\<close>.\<close>

definition url_ends_zip :: "py_dict \<Rightarrow> bool" where
  "url_ends_zip bd =
     (case map_of bd ''downloadUrl'' of
        Some (JStr dl) \<Rightarrow> endswith (lower dl) ''.zip''
      | _ \<Rightarrow> False)"

text \<open>The two loops over \<^verbatim>\<open>batchDownloads\<close> (server.py, lines 204-207 and 209-215).\<close>

fun first_zip_typed :: "json list \<Rightarrow> py_dict option" where
  "first_zip_typed [] = None"
| "first_zip_typed (JDict bd # rest) = (if type_is_zip bd then Some bd else first_zip_typed rest)"
| "first_zip_typed (other # rest) = first_zip_typed rest"

fun first_zip_suffixed :: "json list \<Rightarrow> py_dict option" where
  "first_zip_suffixed [] = None"
| "first_zip_suffixed (JDict bd # rest) =
     (if url_ends_zip bd then Some bd else first_zip_suffixed rest)"
| "first_zip_suffixed (other # rest) = first_zip_suffixed rest"

record zip_pointer =
  zip_download_url :: "string option"
  zip_presigned_expires_at :: "string option"

text \<open>
  \<^verbatim>\<open>_extract_zip_pointer\<close> (server.py, lines 177-224). The canonical URL is
  \<^verbatim>\<open>payload["outputs"]["download_url"]\<close>, its expiry the top-level
  \<^verbatim>\<open>payload["presigned_url_expiry"]\<close>. In the fallback a selected record is never an
  empty \<^verbatim>\<open>dict\<close> (it has a \<^verbatim>\<open>type\<close> or a \<^verbatim>\<open>downloadUrl\<close>), so the truth tests of
  \<^verbatim>\<open>zip_entry\<close> are tests for \<^verbatim>\<open>None\<close>.
\<close>

definition canonical_download_url :: "py_dict \<Rightarrow> string option" where
  "canonical_download_url payload =
     (case map_of payload ''outputs'' of
        Some (JDict outputs) \<Rightarrow> nonblank_str (map_of outputs ''download_url'')
      | _ \<Rightarrow> None)"

definition legacy_zip_entry :: "py_dict \<Rightarrow> py_dict option" where
  "legacy_zip_entry payload =
     (case map_of payload ''batchDownloads'' of
        Some (JList batch_downloads) \<Rightarrow>
          (case first_zip_typed batch_downloads of
             Some bd \<Rightarrow> Some bd
           | None \<Rightarrow> first_zip_suffixed batch_downloads)
      | _ \<Rightarrow> None)"

definition extract_zip_pointer :: "py_dict \<Rightarrow> zip_pointer" where
  "extract_zip_pointer payload =
     (case canonical_download_url payload of
        Some dl \<Rightarrow>
          \<lparr>zip_download_url = Some dl,
           zip_presigned_expires_at = nonblank_str (map_of payload ''presigned_url_expiry'')\<rparr>
      | None \<Rightarrow>
          (case legacy_zip_entry payload of
             Some zip_entry \<Rightarrow>
               \<lparr>zip_download_url = nonblank_str (map_of zip_entry ''downloadUrl''),
                zip_presigned_expires_at = nonblank_str (map_of zip_entry ''expiresAt'')\<rparr>
           | None \<Rightarrow> \<lparr>zip_download_url = None, zip_presigned_expires_at = None\<rparr>))"

text \<open>
  The fallback in the words of the specification (section 4.1, step 2): the first record
  typed \<^verbatim>\<open>zip\<close>, else the first record whose URL ends in \<^verbatim>\<open>.zip\<close>, both compared
  without regard to case; a record is a \<^verbatim>\<open>dict\<close> of the list.
\<close>

definition is_zip_typed_record :: "json \<Rightarrow> bool" where
  "is_zip_typed_record j = (case j of JDict bd \<Rightarrow> type_is_zip bd | _ \<Rightarrow> False)"

definition is_zip_suffixed_record :: "json \<Rightarrow> bool" where
  "is_zip_suffixed_record j = (case j of JDict bd \<Rightarrow> url_ends_zip bd | _ \<Rightarrow> False)"

definition legacy_record :: "py_dict \<Rightarrow> json option" where
  "legacy_record payload =
     (case map_of payload ''batchDownloads'' of
        Some (JList batch_downloads) \<Rightarrow>
          (case find is_zip_typed_record batch_downloads of
             Some r \<Rightarrow> Some r
           | None \<Rightarrow> find is_zip_suffixed_record batch_downloads)
      | _ \<Rightarrow> None)"

section \<open>Download requests: the fetcher and the file-download tool\<close>

text \<open>\<^verbatim>\<open>sub in s\<close> and \<^verbatim>\<open>_is_presigned_s3_url\<close> (server.py, lines 227-229).\<close>

fun contains :: "string \<Rightarrow> string \<Rightarrow> bool" where
  "contains [] sub = (sub = [])"
| "contains (c # cs) sub = (startswith (c # cs) sub \<or> contains cs sub)"

definition is_presigned_s3_url :: "string \<Rightarrow> bool" where
  "is_presigned_s3_url url = (contains url ''X-Amz-'' \<or> contains url ''amazonaws.com'')"

text \<open>
  \<^verbatim>\<open>a or b\<close> on optional strings, as in \<^verbatim>\<open>api_key_override or os.environ.get(...)\<close>; the
  key is usable when the result is a string that is not empty.
\<close>

definition py_or :: "string option \<Rightarrow> string option \<Rightarrow> string option" where
  "py_or a b = (case a of Some s \<Rightarrow> if s \<noteq> [] then Some s else b | None \<Rightarrow> b)"

definition usable_key :: "string option \<Rightarrow> string option" where
  "usable_key k = (case k of Some s \<Rightarrow> if s \<noteq> [] then Some s else None | None \<Rightarrow> None)"

text \<open>
  A GET request is its URL and its headers. The network is a parameter: the answer to a
  request may depend on every request sent before it. An answer is a status code, or one
  of the two \<^verbatim>\<open>httpx\<close> exceptions the code catches.
\<close>

record http_request =
  req_url :: string
  req_headers :: "(string \<times> string) list"

datatype http_outcome = Response nat | TimeoutException | RequestError

definition bearer :: "string \<Rightarrow> (string \<times> string) list" where
  "bearer key = [(''Authorization'', ''Bearer '' @ key)]"

record net_env =
  http :: "http_request list \<Rightarrow> http_request \<Rightarrow> http_outcome"
  mkdir_fails :: bool
  mkstemp_fails :: bool
  write_fails :: "nat \<Rightarrow> bool"

text \<open>
  \<^verbatim>\<open>_download_zip_to_temp_file\<close> (server.py, lines 861-955): the result and the requests
  sent. A failure carries its error text and, for a status other than 200, the status.
  \<^verbatim>\<open>tempfile.mkstemp\<close> stands outside the \<^verbatim>\<open>try\<close>: its \<^verbatim>\<open>OSError\<close> leaves the function.
\<close>

datatype dl_result = DlOk | DlFail string "nat option" | DlRaised py_error

definition download_zip_to_temp_file ::
  "net_env \<Rightarrow> string \<Rightarrow> string option \<Rightarrow> string option \<Rightarrow> string option
     \<Rightarrow> dl_result \<times> http_request list" where
  "download_zip_to_temp_file env zip_url api_key_override env_key temp_dir =
     (if zip_url = [] then (DlFail ''Missing zip_download_url'' None, [])
      else if usable_key temp_dir \<noteq> None \<and> mkdir_fails env
      then (DlFail ''Cannot create temp directory'' None, [])
      else if mkstemp_fails env then (DlRaised OSError, [])
      else
        (let headers =
               (if \<not> is_presigned_s3_url zip_url then
                  (case usable_key (py_or api_key_override env_key) of
                     Some key \<Rightarrow> bearer key
                   | None \<Rightarrow> [])
                else []);
             req = \<lparr>req_url = zip_url, req_headers = headers\<rparr>
         in
         case http env [] req of
           Response code \<Rightarrow>
             if code \<noteq> 200 then (DlFail ''ZIP download failed'' (Some code), [req])
             else if write_fails env 0 then (DlFail ''File error'' None, [req])
             else (DlOk, [req])
         | TimeoutException \<Rightarrow> (DlFail ''ZIP download timed out'' None, [req])
         | RequestError \<Rightarrow> (DlFail ''Network error'' None, [req])))"

text \<open>
  \<^verbatim>\<open>_download_processed_files_impl\<close> (server.py, lines 758-853). The state of its loop:
  the requests sent, the indices of the URLs saved, the errors recorded (each with the
  1-based index of its URL).
\<close>

datatype dl_error =
    HttpStatusError nat nat
  | DownloadTimedOut nat
  | NetworkError nat
  | FileSaveError nat

record dl_state =
  requests :: "http_request list"
  downloaded :: "nat list"
  errors :: "dl_error list"

text \<open>The body of the loop for the URL of index \<open>i\<close> (lines 797-840).\<close>

definition download_one :: "net_env \<Rightarrow> string \<Rightarrow> nat \<Rightarrow> string \<Rightarrow> dl_state \<Rightarrow> dl_state" where
  "download_one env key i url st =
     (let is_presigned = is_presigned_s3_url url;
          headers = (if is_presigned then [] else bearer key);
          req1 = \<lparr>req_url = url, req_headers = headers\<rparr>;
          st1 = st\<lparr>requests := requests st @ [req1]\<rparr>
      in
      case http env (requests st) req1 of
        TimeoutException \<Rightarrow> st1\<lparr>errors := errors st1 @ [DownloadTimedOut (i + 1)]\<rparr>
      | RequestError \<Rightarrow> st1\<lparr>errors := errors st1 @ [NetworkError (i + 1)]\<rparr>
      | Response code1 \<Rightarrow>
          (let req2 = \<lparr>req_url = url, req_headers = bearer key\<rparr>;
               retry = (code1 = 401 \<and> is_presigned);
               st2 = (if retry then st1\<lparr>requests := requests st1 @ [req2]\<rparr> else st1);
               resp = (if retry then http env (requests st1) req2 else Response code1)
           in
           case resp of
             TimeoutException \<Rightarrow> st2\<lparr>errors := errors st2 @ [DownloadTimedOut (i + 1)]\<rparr>
           | RequestError \<Rightarrow> st2\<lparr>errors := errors st2 @ [NetworkError (i + 1)]\<rparr>
           | Response code \<Rightarrow>
               if code \<noteq> 200
               then st2\<lparr>errors := errors st2 @ [HttpStatusError (i + 1) code]\<rparr>
               else if write_fails env i
               then st2\<lparr>errors := errors st2 @ [FileSaveError (i + 1)]\<rparr>
               else st2\<lparr>downloaded := downloaded st2 @ [i]\<rparr>))"

fun download_loop :: "net_env \<Rightarrow> string \<Rightarrow> nat \<Rightarrow> string list \<Rightarrow> dl_state \<Rightarrow> dl_state" where
  "download_loop env key i [] st = st"
| "download_loop env key i (url # urls) st =
     download_loop env key (i + 1) urls (download_one env key i url st)"

datatype tool_result = ToolError string | ToolDone bool dl_state

definition download_processed_files_impl ::
  "net_env \<Rightarrow> string list \<Rightarrow> string option \<Rightarrow> string option \<Rightarrow> tool_result" where
  "download_processed_files_impl env download_urls api_key_override env_key =
     (case usable_key (py_or api_key_override env_key) of
        None \<Rightarrow> ToolError ''Missing API key''
      | Some key \<Rightarrow>
          if download_urls = [] then ToolError ''No download URLs provided''
          else if mkdir_fails env then ToolError ''Cannot create output directory''
          else
            (let st = download_loop env key 0 download_urls
                        \<lparr>requests = [], downloaded = [], errors = []\<rparr>
             in ToolDone (downloaded st \<noteq> []) st))"

text \<open>The requests a call of the tool has sent.\<close>

definition requests_of :: "tool_result \<Rightarrow> http_request list" where
  "requests_of res = (case res of ToolError e \<Rightarrow> [] | ToolDone ok st \<Rightarrow> requests st)"

text \<open>
  What holds of a request \<open>r\<close> of the tool, sent after the requests \<open>before\<close>: a URL not
  detected as pre-signed gets the bearer header; a URL detected as pre-signed gets no
  header, or gets the bearer header as the retry of the same URL, sent without header
  just before and answered 401.
\<close>

definition request_ok ::
  "(http_request list \<Rightarrow> http_request \<Rightarrow> http_outcome) \<Rightarrow> string \<Rightarrow> http_request list
     \<Rightarrow> http_request \<Rightarrow> bool" where
  "request_ok net key before r =
     (if \<not> is_presigned_s3_url (req_url r) then req_headers r = bearer key
      else req_headers r = [] \<or>
           (req_headers r = bearer key \<and> before \<noteq> [] \<and>
            last before = \<lparr>req_url = req_url r, req_headers = []\<rparr> \<and>
            net (butlast before) (last before) = Response 401))"

definition requests_ok ::
  "(http_request list \<Rightarrow> http_request \<Rightarrow> http_outcome) \<Rightarrow> string \<Rightarrow> http_request list \<Rightarrow> bool" where
  "requests_ok net key sent = list_all (\<lambda>i. request_ok net key (take i sent) (sent ! i)) [0..<length sent]"

section \<open>The status tool and the workflow orchestrator\<close>

text \<open>
  \<^verbatim>\<open>d.get(k)\<close> (\<^verbatim>\<open>None\<close> when the key is missing), \<^verbatim>\<open>d.get(k, default)\<close>,
  \<^verbatim>\<open>d[k] = v\<close>, the truth value of a JSON value, and an optional string as a JSON value.
\<close>

definition dict_get :: "py_dict \<Rightarrow> string \<Rightarrow> json" where
  "dict_get d k = (case map_of d k of None \<Rightarrow> JNull | Some v \<Rightarrow> v)"

definition dict_get_or :: "py_dict \<Rightarrow> string \<Rightarrow> json \<Rightarrow> json" where
  "dict_get_or d k dflt = (case map_of d k of None \<Rightarrow> dflt | Some v \<Rightarrow> v)"

fun dict_set :: "string \<Rightarrow> json \<Rightarrow> py_dict \<Rightarrow> py_dict" where
  "dict_set k v [] = [(k, v)]"
| "dict_set k v ((k', v') # d) = (if k = k' then (k, v) # d else (k', v') # dict_set k v d)"

fun truthy :: "json \<Rightarrow> bool" where
  "truthy JNull = False"
| "truthy (JBool b) = b"
| "truthy (JInt n) = (n \<noteq> 0)"
| "truthy (JFloat x) = (x \<noteq> 0)"
| "truthy (JStr s) = (s \<noteq> [])"
| "truthy (JList xs) = (xs \<noteq> [])"
| "truthy (JDict d) = (d \<noteq> [])"

definition opt_str :: "string option \<Rightarrow> json" where
  "opt_str s = (case s of None \<Rightarrow> JNull | Some x \<Rightarrow> JStr x)"

text \<open>
  \<^verbatim>\<open>_is_terminal_status\<close> with \<^verbatim>\<open>_normalize_status\<close> (server.py, lines 159-174), on the
  value of the \<^verbatim>\<open>status\<close> field: \<^verbatim>\<open>str\<close> of a value that is not a string never is one
  of the five terminal words.
\<close>

definition is_terminal_status :: "json \<Rightarrow> bool" where
  "is_terminal_status status =
     (case status of
        JStr s \<Rightarrow>
          lower (strip s) \<in> {''complete'', ''completed'', ''failed'', ''partially complete'',
                              ''partially completed''}
      | _ \<Rightarrow> False)"

text \<open>
  \<^verbatim>\<open>check_batch_status\<close> (server.py, lines 580-718). What the status endpoint answered is
  a parameter: a failure (missing key, timeout, network error, a status other than 200
  or 201, a body that is not JSON), with its error text, or the payload. The result is the
  \<^verbatim>\<open>dict\<close> the tool returns, with the fields the workflow reads; the fields it does not
  read (the counters, the dates, the camelCase aliases, \<^verbatim>\<open>details\<close>) are left out.
\<close>

datatype status_reply = StatusFailure string | StatusPayload py_dict

fun files_summary :: "json list \<Rightarrow> json list" where
  "files_summary [] = []"
| "files_summary (JDict f # rest) =
     JDict ([(''fileId'', dict_get f ''fileId''), (''fileName'', dict_get f ''fileName''),
             (''status'', dict_get f ''status'')] @
            (if truthy (dict_get f ''downloadUrl'')
             then [(''downloadUrl'', dict_get f ''downloadUrl'')] else []) @
            (if truthy (dict_get f ''errorMessage'')
             then [(''errorMessage'', dict_get f ''errorMessage'')] else []))
     # files_summary rest"
| "files_summary (other # rest) = files_summary rest"

fun batch_summary :: "json list \<Rightarrow> json list" where
  "batch_summary [] = []"
| "batch_summary (JDict bd # rest) =
     JDict [(''type'', dict_get bd ''type''), (''downloadUrl'', dict_get bd ''downloadUrl''),
            (''expiresAt'', dict_get bd ''expiresAt'')]
     # batch_summary rest"
| "batch_summary (other # rest) = batch_summary rest"

definition check_batch_status :: "status_reply \<Rightarrow> py_dict" where
  "check_batch_status reply =
     (case reply of
        StatusFailure err \<Rightarrow> [(''success'', JBool False), (''error'', JStr err)]
      | StatusPayload payload \<Rightarrow>
          (let zip_ptr = extract_zip_pointer payload;
               files_info = (case map_of payload ''files'' of
                               Some (JList fs) \<Rightarrow> files_summary fs | _ \<Rightarrow> []);
               batch_downloads = (case map_of payload ''batchDownloads'' of
                                    Some (JList bds) \<Rightarrow> batch_summary bds | _ \<Rightarrow> [])
           in
           [(''success'', JBool True),
            (''status'', dict_get payload ''status''),
            (''filesFailed'', dict_get_or payload ''filesFailed'' (JInt 0)),
            (''files'', JList files_info),
            (''zip_download_url'', opt_str (zip_download_url zip_ptr)),
            (''zip_presigned_expires_at'', opt_str (zip_presigned_expires_at zip_ptr))] @
           (if batch_downloads \<noteq> [] then [(''batchDownloads'', JList batch_downloads)] else []) @
           (case map_of payload ''summary'' of
              Some (JDict s) \<Rightarrow> [(''summary'', JDict s)] | _ \<Rightarrow> [])))"

text \<open>
  The workflow runs against its collaborators, which are parameters. Each answer may
  depend on the events so far: the clock readings, the status queries, the sleeps and the
  calls of a ZIP tool (\<^verbatim>\<open>get_batch_zip_manifest\<close> or \<^verbatim>\<open>download_and_extract_batch_zip\<close>;
  each begins with one call of the fetcher, server.py lines 1061 and 1115, so a call of a
  tool is one fetch of the ZIP).
\<close>

datatype mode = Urls | Manifest | Extract

datatype wf_event = ClockRead | StatusQuery | Sleep | ZipFetch mode json

text \<open>
  The result of a ZIP tool, by the fields of the \<^verbatim>\<open>dict\<close> it returns (server.py, lines
  1066-1088 and 1121-1161).
\<close>

record zip_tool_result =
  zt_success :: bool
  zt_error :: "string option"
  zt_http_status :: "nat option"
  zt_details :: "string option"
  zt_entries :: "json list"
  zt_matched_entries :: "json list"
  zt_extracted_files :: "string list"
  zt_warnings :: "json list"

record wf_env =
  environ_email :: string
  upload_rent_rolls :: py_dict
  status_reply :: "wf_event list \<Rightarrow> status_reply"
  monotonic :: "wf_event list \<Rightarrow> real"
  resolve_output_dir :: "py_error + string \<times> json list"
  zip_tool :: "wf_event list \<Rightarrow> mode \<Rightarrow> json \<Rightarrow> py_error + zip_tool_result"
  read_csv_previews :: "string list \<Rightarrow> json list"

record wf_args =
  notification_email :: string
  timeout_seconds :: real
  result_mode :: mode
  include_summary :: bool

text \<open>
  The polling loop (server.py, lines 1238-1254). The loop may run for ever; \<open>fuel\<close> bounds
  the number of its rounds, and running out of it is an outcome of its own.
\<close>

datatype poll_outcome = PollFailed py_dict | PollBreak py_dict | PollOutOfFuel

fun poll_loop :: "wf_env \<Rightarrow> real \<Rightarrow> nat \<Rightarrow> wf_event list \<Rightarrow> poll_outcome \<times> wf_event list" where
  "poll_loop env deadline 0 tr = (PollOutOfFuel, tr)"
| "poll_loop env deadline (Suc fuel) tr =
     (let status_resp = check_batch_status (status_reply env tr);
          tr1 = tr @ [StatusQuery]
      in
      if \<not> truthy (dict_get status_resp ''success'') then (PollFailed status_resp, tr1)
      else if is_terminal_status (dict_get_or status_resp ''status'' (JStr []))
      then (PollBreak status_resp, tr1)
      else if monotonic env tr1 \<ge> deadline then (PollBreak status_resp, tr1 @ [ClockRead])
      else poll_loop env deadline fuel (tr1 @ [ClockRead, Sleep]))"

text \<open>The pointer of the last snapshot, with the re-scan (server.py, lines 1257-1266).\<close>

definition resolve_pointer :: "py_dict \<Rightarrow> json \<times> json" where
  "resolve_pointer last_status =
     (let url = dict_get last_status ''zip_download_url'';
          expires = dict_get last_status ''zip_presigned_expires_at''
      in
      if \<not> truthy url then
        (let zip_ptr = extract_zip_pointer last_status in
         (opt_str (zip_download_url zip_ptr),
          (if truthy (opt_str (zip_presigned_expires_at zip_ptr))
           then opt_str (zip_presigned_expires_at zip_ptr) else expires)))
      else (url, expires))"

text \<open>The warnings for failed files (server.py, lines 1268-1284).\<close>

fun file_failed_warnings :: "json list \<Rightarrow> json list" where
  "file_failed_warnings [] = []"
| "file_failed_warnings (JDict f # rest) =
     (if dict_get f ''status'' = JStr ''failed''
      then JDict [(''type'', JStr ''file_failed''), (''file_name'', dict_get f ''fileName''),
                  (''error_message'', dict_get f ''errorMessage'')] # file_failed_warnings rest
      else file_failed_warnings rest)"
| "file_failed_warnings (other # rest) = file_failed_warnings rest"

definition status_warnings :: "py_dict \<Rightarrow> json list" where
  "status_warnings last_status =
     (if truthy (dict_get_or last_status ''filesFailed'' (JInt 0)) then
        (case dict_get_or last_status ''files'' (JList []) of
           JList fs \<Rightarrow> file_failed_warnings fs
         | _ \<Rightarrow> []) @
        [JDict [(''type'', JStr ''batch_failed_files''),
                (''files_failed'', dict_get last_status ''filesFailed'')]]
      else [])"

text \<open>
  The result before the ZIP stage (server.py, lines 1290-1307); \<^verbatim>\<open>host_os\<close> is left out.
\<close>

definition base_result ::
  "wf_args \<Rightarrow> json \<Rightarrow> py_dict \<Rightarrow> json \<Rightarrow> json \<Rightarrow> string \<Rightarrow> json list \<Rightarrow> py_dict" where
  "base_result args batch_id last_status url expires output_dir_used warns =
     [(''success'', JBool True),
      (''batch_id'', batch_id),
      (''status'', dict_get last_status ''status''),
      (''zip_download_url'', url),
      (''zip_presigned_expires_at'', expires),
      (''output_dir_used'', JStr output_dir_used),
      (''warnings'', JList warns),
      (''batchId'', batch_id),
      (''zipDownloadUrl'', url),
      (''zipPresignedExpiresAt'', expires)] @
     (if include_summary args \<and> dict_get last_status ''summary'' \<noteq> JNull
      then [(''summary'', dict_get last_status ''summary'')] else [])"

text \<open>
  The ZIP stage with its one refresh (server.py, lines 1342-1358): the result of the last
  tool call and the workflow result, or the exception a tool raised; and the events.
\<close>

definition zip_stage ::
  "wf_env \<Rightarrow> wf_event list \<Rightarrow> mode \<Rightarrow> json \<Rightarrow> py_dict
     \<Rightarrow> (py_error + zip_tool_result \<times> py_dict) \<times> wf_event list" where
  "zip_stage env tr m url result =
     (let tr1 = tr @ [ZipFetch m url] in
      case zip_tool env tr m url of
        Inl e \<Rightarrow> (Inl e, tr1)
      | Inr zip_result \<Rightarrow>
          if \<not> zt_success zip_result \<and> zt_http_status zip_result = Some 403 then
            (let refreshed = check_batch_status (status_reply env tr1);
                 tr2 = tr1 @ [StatusQuery]
             in
             if truthy (dict_get refreshed ''success'') then
               (let new_url = (if truthy (dict_get refreshed ''zip_download_url'')
                               then dict_get refreshed ''zip_download_url'' else url)
                in
                if truthy new_url then
                  (let result1 = dict_set ''zipDownloadUrl'' new_url
                                   (dict_set ''zip_download_url'' new_url result);
                       tr3 = tr2 @ [ZipFetch m new_url]
                   in
                   case zip_tool env tr2 m new_url of
                     Inl e \<Rightarrow> (Inl e, tr3)
                   | Inr zip_result2 \<Rightarrow> (Inr (zip_result2, result1), tr3))
                else (Inr (zip_result, result), tr2))
             else (Inr (zip_result, result), tr2))
          else (Inr (zip_result, result), tr1))"

text \<open>The result after the ZIP stage (server.py, lines 1360-1402).\<close>

definition tool_failure_warning :: "string \<Rightarrow> zip_tool_result \<Rightarrow> json" where
  "tool_failure_warning kind zip_result =
     JDict [(''type'', JStr kind), (''error'', opt_str (zt_error zip_result)),
            (''details'', opt_str (zt_details zip_result)),
            (''http_status'',
               (case zt_http_status zip_result of None \<Rightarrow> JNull | Some c \<Rightarrow> JInt (int c)))]"

definition result_warnings :: "py_dict \<Rightarrow> json list" where
  "result_warnings result = (case dict_get result ''warnings'' of JList ws \<Rightarrow> ws | _ \<Rightarrow> [])"

definition finish_result :: "wf_env \<Rightarrow> mode \<Rightarrow> zip_tool_result \<Rightarrow> py_dict \<Rightarrow> py_dict" where
  "finish_result env m zip_result result =
     (if m = Manifest then
        (let r1 = dict_set ''zip_manifest''
                    (JDict [(''entries'', JList (zt_entries zip_result)),
                            (''matched_entries'', JList (zt_matched_entries zip_result))]) result
         in
         if \<not> zt_success zip_result
         then dict_set ''warnings''
                (JList (result_warnings r1 @ [tool_failure_warning ''zip_manifest_failed'' zip_result]))
                r1
         else r1)
      else
        (let extracted = zt_extracted_files zip_result;
             r1 = dict_set ''extracted_count'' (JInt (int (length extracted)))
                    (dict_set ''extracted_files'' (JList (map JStr extracted)) result);
             r2 = dict_set ''warnings'' (JList (result_warnings r1 @ zt_warnings zip_result)) r1;
             r3 = (if \<not> zt_success zip_result
                   then dict_set ''warnings''
                          (JList (result_warnings r2 @
                                  [tool_failure_warning ''zip_extract_failed'' zip_result])) r2
                   else r2)
         in
         dict_set ''processed_csv''
           (JList (if extracted \<noteq> [] then read_csv_previews env extracted else [])) r3))"

text \<open>
  \<^verbatim>\<open>process_rent_roll_workflow\<close> (server.py, lines 1175-1402): what the call does (it
  returns a \<^verbatim>\<open>dict\<close>, an exception leaves it, or the polling outlasts the fuel) and the
  events. \<open>after_poll\<close> is the part after the polling loop.
\<close>

datatype wf_outcome = Returned py_dict | Raised py_error | OutOfFuel

definition timed_out_result :: "py_dict \<Rightarrow> py_dict" where
  "timed_out_result result =
     dict_set ''details'' (JStr ''Batch did not reach a terminal state within timeout_seconds.'')
       (dict_set ''error'' (JStr ''Workflow timed out'')
          (dict_set ''success'' (JBool False) result))"

definition missing_url_result :: "py_dict \<Rightarrow> py_dict" where
  "missing_url_result result =
     dict_set ''details'' (JStr ''Batch completed but no canonical ZIP URL was available.'')
       (dict_set ''error'' (JStr ''Missing zip_download_url'')
          (dict_set ''success'' (JBool False) result))"

definition after_poll ::
  "wf_env \<Rightarrow> wf_args \<Rightarrow> json \<Rightarrow> real \<Rightarrow> py_dict \<Rightarrow> wf_event list \<Rightarrow> wf_outcome \<times> wf_event list" where
  "after_poll env args batch_id deadline last_status tr =
     (let (url, expires) = resolve_pointer last_status;
          warns = status_warnings last_status
      in
      case resolve_output_dir env of
        Inl e \<Rightarrow> (Raised e, tr)
      | Inr (output_dir_used, dir_warnings) \<Rightarrow>
          (let result = base_result args batch_id last_status url expires output_dir_used
                          (warns @ dir_warnings);
               now = monotonic env tr;
               tr1 = tr @ [ClockRead]
           in
           if now \<ge> deadline \<and>
              \<not> is_terminal_status (dict_get_or last_status ''status'' (JStr []))
           then (Returned (timed_out_result result), tr1)
           else if result_mode args = Urls then (Returned result, tr1)
           else if \<not> truthy url then (Returned (missing_url_result result), tr1)
           else
             (case zip_stage env tr1 (result_mode args) url result of
                (Inl e, tr2) \<Rightarrow> (Raised e, tr2)
              | (Inr (zip_result, result1), tr2) \<Rightarrow>
                  (Returned (finish_result env (result_mode args) zip_result result1), tr2))))"

definition process_rent_roll_workflow ::
  "wf_env \<Rightarrow> wf_args \<Rightarrow> nat \<Rightarrow> wf_outcome \<times> wf_event list" where
  "process_rent_roll_workflow env args fuel =
     (let email = (if strip (notification_email args) \<noteq> [] then strip (notification_email args)
                   else strip (environ_email env))
      in
      if email = [] then
        (Returned [(''success'', JBool False), (''error'', JStr ''Missing notification_email''),
                   (''details'',
                      JStr ''Provide notification_email or set RADIX_NOTIFICATION_EMAIL.'')], [])
      else
        (let upload = upload_rent_rolls env in
         if \<not> truthy (dict_get upload ''success'') then (Returned upload, [])
         else
           (let batch_id = dict_get upload ''batchId'' in
            if \<not> truthy batch_id then
              (Returned [(''success'', JBool False),
                         (''error'', JStr ''Upload did not return batchId'')], [])
            else
              (let deadline = monotonic env [] + timeout_seconds args in
               case poll_loop env deadline fuel [ClockRead] of
                 (PollOutOfFuel, tr) \<Rightarrow> (OutOfFuel, tr)
               | (PollFailed status_resp, tr) \<Rightarrow> (Returned status_resp, tr)
               | (PollBreak last_status, tr) \<Rightarrow>
                   after_poll env args batch_id deadline last_status tr))))"

text \<open>The calls of a ZIP tool among the events, and the status queries.\<close>

fun is_zip_fetch :: "wf_event \<Rightarrow> bool" where
  "is_zip_fetch (ZipFetch m u) = True"
| "is_zip_fetch ev = False"

definition fetch_count :: "wf_event list \<Rightarrow> nat" where
  "fetch_count tr = length (filter is_zip_fetch tr)"

section \<open>Notions the statements about the archive use\<close>

text \<open>
  The name check in the words of the specification (section 4.4, step 2), on a stored
  name already normalised to forward slashes: the name is empty, begins with a path
  separator, has a colon in its first path segment, or has a segment that is exactly the
  parent-directory token.
\<close>

definition unsafe_member_name :: "string \<Rightarrow> bool" where
  "unsafe_member_name n =
     (n = [] \<or> startswith n ''/'' \<or>
      CHR '':'' \<in> set (takeWhile (\<lambda>c. c \<noteq> CHR ''/'') n) \<or>
      ''..'' \<in> set (split_on CHR ''/'' n))"

text \<open>The member a file-system operation is done for, and the two kinds of warning.\<close>

fun event_entry :: "fs_event \<Rightarrow> string option" where
  "event_entry (RootMkdir p) = None"
| "event_entry (ResolveDest n p) = Some n"
| "event_entry (ParentMkdir n p) = Some n"
| "event_entry (CopyMember n p) = Some n"

definition unsafe_name_warning :: "string \<Rightarrow> zip_warning" where
  "unsafe_name_warning raw_name =
     \<lparr>w_type = ''zip_slip_skipped'', w_entry = raw_name, w_reason = ''unsafe_member_name''\<rparr>"

definition escape_warning :: "string \<Rightarrow> zip_warning" where
  "escape_warning raw_name =
     \<lparr>w_type = ''zip_slip_skipped'', w_entry = raw_name, w_reason = ''path_escapes_output_dir''\<rparr>"

text \<open>
  A resolved path lies inside the resolved destination when it is the destination or has
  it among its parents (the test of server.py, line 1022, negated).
\<close>

definition inside_root :: "path \<Rightarrow> path \<Rightarrow> bool" where
  "inside_root root_resolved p = (p = root_resolved \<or> root_resolved \<in> set (parents p))"

text \<open>
  The members the extraction selects are the ones that pass its pattern filter: each has
  its destination resolved next, so they are the names of the \<open>ResolveDest\<close> events.
\<close>

fun selected_entries :: "fs_event list \<Rightarrow> string list" where
  "selected_entries [] = []"
| "selected_entries (ResolveDest n p # evs) = n # selected_entries evs"
| "selected_entries (ev # evs) = selected_entries evs"

text \<open>The stored name of a member with forward slashes, and a member passing both filters.\<close>

definition raw_name_of :: "zip_info \<Rightarrow> string" where
  "raw_name_of info = to_posix (filename info)"

definition passes_filters :: "fnmatch \<Rightarrow> string list \<Rightarrow> zip_info \<Rightarrow> bool" where
  "passes_filters fnm patterns info =
     (case safe_zip_member_name (raw_name_of info) of
        None \<Rightarrow> False
      | Some safe_name \<Rightarrow>
          \<not> info_is_dir info \<and> match_zip_patterns fnm safe_name patterns = Inr True)"

text \<open>
  A file-system operation is justified when it is done for a member whose name passed
  the name check and whose sanitised name matched the patterns; a warning is justified
  when it is the name warning of a name that failed the name check, or the escape
  warning of a member that passed the name check and the pattern filter.
\<close>

definition event_justified :: "fnmatch \<Rightarrow> string list \<Rightarrow> fs_event \<Rightarrow> bool" where
  "event_justified fnm pats ev =
     (case event_entry ev of
        None \<Rightarrow> True
      | Some n \<Rightarrow>
          (case safe_zip_member_name n of
             None \<Rightarrow> False
           | Some s \<Rightarrow> match_zip_patterns fnm s pats = Inr True))"

definition warning_justified :: "fnmatch \<Rightarrow> string list \<Rightarrow> zip_warning \<Rightarrow> bool" where
  "warning_justified fnm pats w =
     (case safe_zip_member_name (w_entry w) of
        None \<Rightarrow> w = unsafe_name_warning (w_entry w)
      | Some s \<Rightarrow> w = escape_warning (w_entry w) \<and> match_zip_patterns fnm s pats = Inr True)"

text \<open>The manifest entry \<^verbatim>\<open>_build_zip_manifest\<close> makes of a member.\<close>

definition manifest_entry_of :: "zip_info \<Rightarrow> manifest_entry" where
  "manifest_entry_of info =
     \<lparr>m_name = raw_name_of info, m_size = file_size info,
      m_compressed_size = compress_size info, m_is_dir = info_is_dir info\<rparr>"

text \<open>A file system for examples: no symbolic links, absolute paths, nothing refused.\<close>

definition plain_fs :: fs_env where
  "plain_fs = \<lparr>resolve_path = (\<lambda>p. p), fs_fails = (\<lambda>ev. False)\<rparr>"

definition member :: "string \<Rightarrow> bool \<Rightarrow> zip_info" where
  "member n d = \<lparr>filename = n, file_size = 0, compress_size = 0, info_is_dir = d\<rparr>"

text \<open>Networks for examples: every request is answered with the same status code.\<close>

definition answering :: "nat \<Rightarrow> net_env" where
  "answering code =
     \<lparr>http = (\<lambda>sent r. Response code), mkdir_fails = False, mkstemp_fails = False,
      write_fails = (\<lambda>i. False)\<rparr>"

text \<open>
  Collaborators for examples: the upload succeeds, the clock advances by one with every
  event, the output directory resolves; the status replies and the ZIP tool are given.
\<close>

definition forbidden :: zip_tool_result where
  "forbidden =
     \<lparr>zt_success = False, zt_error = Some ''ZIP download failed'', zt_http_status = Some 403,
      zt_details = None, zt_entries = [], zt_matched_entries = [], zt_extracted_files = [],
      zt_warnings = []\<rparr>"

definition fetched :: zip_tool_result where
  "fetched =
     \<lparr>zt_success = True, zt_error = None, zt_http_status = None, zt_details = None,
      zt_entries = [], zt_matched_entries = [], zt_extracted_files = [], zt_warnings = []\<rparr>"

definition demo_env ::
  "(wf_event list \<Rightarrow> status_reply) \<Rightarrow> (wf_event list \<Rightarrow> mode \<Rightarrow> json \<Rightarrow> py_error + zip_tool_result)
     \<Rightarrow> wf_env" where
  "demo_env replies tool =
     \<lparr>environ_email = [],
      upload_rent_rolls = [(''success'', JBool True), (''batchId'', JStr ''b1'')],
      status_reply = replies,
      monotonic = (\<lambda>tr. real (length tr)),
      resolve_output_dir = Inr (''/tmp/radix'', []),
      zip_tool = tool,
      read_csv_previews = (\<lambda>files. [])\<rparr>"

definition demo_args :: "mode \<Rightarrow> real \<Rightarrow> wf_args" where
  "demo_args m t =
     \<lparr>notification_email = ''ops@example.com'', timeout_seconds = t, result_mode = m,
      include_summary = True\<rparr>"

text \<open>
  Status replies for examples: a completed batch whose payload has the canonical URL
  \<open>first\<close> until a ZIP has been fetched and the payload \<open>later\<close> afterwards; and a batch
  that is processing for ever.
\<close>

definition complete_with :: "string \<Rightarrow> py_dict" where
  "complete_with url =
     [(''status'', JStr ''complete''), (''outputs'', JDict [(''download_url'', JStr url)])]"

definition replies_then :: "py_dict \<Rightarrow> py_dict \<Rightarrow> wf_event list \<Rightarrow> status_reply" where
  "replies_then first later tr =
     (if list_ex is_zip_fetch tr then StatusPayload later else StatusPayload first)"

definition always_processing :: "wf_event list \<Rightarrow> status_reply" where
  "always_processing tr = StatusPayload [(''status'', JStr ''processing'')]"

text \<open>The result of a run that timed out, as the caller sees it.\<close>

definition timed_out :: "py_dict \<Rightarrow> bool" where
  "timed_out result =
     (dict_get result ''success'' = JBool False \<and>
      dict_get result ''error'' = JStr ''Workflow timed out'' \<and>
      dict_get result ''error'' \<noteq> JStr ''Network error'')"

section \<open>Properties of the pattern matcher\<close>

lemma match_loop_Cons:
  "match_loop fnm name (p # rest) =
     (case match_loop fnm name [p] of
        Inr False \<Rightarrow> match_loop fnm name rest
      | r \<Rightarrow> r)"
  by (auto simp: Let_def split: sum.splits bool.splits)

lemma match_loop_append_empty:
  "match_loop fnm name (patterns @ [[]]) = match_loop fnm name patterns"
proof (induction patterns)
  case Nil
  show ?case by simp
next
  case (Cons p ps)
  have "match_loop fnm name ((p # ps) @ [[]]) =
        (case match_loop fnm name [p] of
           Inr False \<Rightarrow> match_loop fnm name (ps @ [[]]) | r \<Rightarrow> r)"
    using match_loop_Cons [of fnm name p "ps @ [[]]"] by simp
  also have "\<dots> = (case match_loop fnm name [p] of
                      Inr False \<Rightarrow> match_loop fnm name ps | r \<Rightarrow> r)"
    by (simp only: Cons.IH)
  also have "\<dots> = match_loop fnm name (p # ps)"
    by (rule match_loop_Cons [symmetric])
  finally show ?case .
qed

lemma match_loop_replicate_empty:
  "match_loop fnm name (replicate n []) = Inr False"
  by (induction n) simp_all

text \<open>
  C10. Empty-string patterns are ignored: a non-empty list of empty strings matches no
  entry, and appending an empty string to a pattern list leaves the outcome of the match
  (the answer, or the exception) as it was, for every entry and every list.
\<close>

theorem empty_patterns_ignored:
  "match_zip_patterns fnm entry_name (replicate (Suc n) []) = Inr False \<and>
   match_zip_patterns fnm entry_name (patterns @ [[]]) =
     match_zip_patterns fnm entry_name patterns"
proof
  have "match_loop fnm (lstrip_slash (to_posix entry_name)) (replicate (Suc n) []) = Inr False"
    by (rule match_loop_replicate_empty)
  then show "match_zip_patterns fnm entry_name (replicate (Suc n) []) = Inr False"
    by (simp add: match_zip_patterns_def)
next
  show "match_zip_patterns fnm entry_name (patterns @ [[]]) =
        match_zip_patterns fnm entry_name patterns"
  proof (cases patterns)
    case Nil
    then show ?thesis by (simp add: match_zip_patterns_def)
  next
    case (Cons p ps)
    then show ?thesis
      using match_loop_append_empty [of fnm _ patterns]
      by (simp add: match_zip_patterns_def)
  qed
qed

theorem empty_patterns_ignored_witness:
  "match_zip_patterns glob_seg ''processed-csv/a.csv'' ['''', ''''] = Inr False \<and>
   match_zip_patterns glob_seg ''processed-csv/a.csv'' [''*.csv'', ''''] = Inr True \<and>
   match_zip_patterns glob_seg ''processed-csv/a.csv'' [''*.csv''] = Inr True"
proof -
  have run: "match_zip_patterns glob_seg ''processed-csv/a.csv'' [''*.csv''] = Inr True"
    by code_simp
  show ?thesis
    using empty_patterns_ignored [of glob_seg "''processed-csv/a.csv''" 1 "[''*.csv'']"] run
    by (simp add: numeral_eq_Suc)
qed

lemma match_zip_patterns_single:
  "match_zip_patterns fnm entry_name [p] = match_loop fnm (lstrip_slash (to_posix entry_name)) [p]"
  by (simp add: match_zip_patterns_def)

lemma match_zip_patterns_loop:
  "match_zip_patterns fnm entry_name patterns =
     match_loop fnm (lstrip_slash (to_posix entry_name)) patterns"
  by (cases patterns) (simp_all add: match_zip_patterns_def)

lemma match_loop_globstar:
  assumes "lstrip_slash (to_posix pattern) = prefix @ ''/**''"
    and "name = prefix \<or> startswith name (prefix @ ''/'')"
  shows "match_loop fnm name (pattern # rest) = Inr True"
proof -
  have "pattern \<noteq> []"
    using assms(1) by (auto simp: lstrip_slash_def to_posix_def)
  moreover have "endswith (prefix @ ''/**'') ''/**''"
    by (simp add: endswith_def)
  ultimately show ?thesis
    using assms by (simp add: Let_def)
qed

lemma match_loop_all_false:
  assumes "\<forall>q\<in>set before. match_loop fnm name [q] = Inr False"
  shows "match_loop fnm name (before @ rest) = match_loop fnm name rest"
  using assms
proof (induction before)
  case Nil
  then show ?case by simp
next
  case (Cons q qs)
  then have "match_loop fnm name [q] = Inr False" by simp
  then have "match_loop fnm name ((q # qs) @ rest) = match_loop fnm name (qs @ rest)"
    using match_loop_Cons [of fnm name q "qs @ rest"] by simp
  then show ?case using Cons by simp
qed

lemma match_loop_any:
  assumes "\<forall>p\<in>set patterns. \<exists>b. match_loop fnm name [p] = Inr b"
  shows "match_loop fnm name patterns =
           Inr (\<exists>p\<in>set patterns. match_loop fnm name [p] = Inr True)"
  using assms
proof (induction patterns)
  case Nil
  then show ?case by simp
next
  case (Cons p ps)
  then obtain b where b: "match_loop fnm name [p] = Inr b" by auto
  show ?case
  proof (cases b)
    case True
    then show ?thesis
      using b match_loop_Cons [of fnm name p ps] by simp
  next
    case False
    then have "match_loop fnm name (p # ps) = match_loop fnm name ps"
      using b match_loop_Cons [of fnm name p ps] by simp
    then show ?thesis
      using Cons b False by simp
  qed
qed

lemma match_loop_True_some:
  assumes "match_loop fnm name patterns = Inr True"
  shows "\<exists>p\<in>set patterns. match_loop fnm name [p] = Inr True"
  using assms
proof (induction patterns)
  case Nil
  then show ?case by simp
next
  case (Cons p ps)
  show ?case
  proof (cases "match_loop fnm name [p] = Inr True")
    case True
    then show ?thesis by simp
  next
    case False
    then have "match_loop fnm name [p] = Inr False"
      using Cons.prems match_loop_Cons [of fnm name p ps]
      by (auto split: sum.splits bool.splits)
    then have "match_loop fnm name ps = Inr True"
      using Cons.prems match_loop_Cons [of fnm name p ps] by simp
    then show ?thesis using Cons.IH by simp
  qed
qed

text \<open>
  A pattern that ends in \<^verbatim>\<open>/**\<close> (after normalisation) matches the prefix path itself
  and every path below it, at any depth: the list matches as soon as the patterns before
  it have answered no.
\<close>

theorem globstar_matches_prefix_and_below:
  assumes "lstrip_slash (to_posix pattern) = prefix @ ''/**''"
    and "lstrip_slash (to_posix entry_name) = prefix \<or>
         startswith (lstrip_slash (to_posix entry_name)) (prefix @ ''/'')"
    and "\<forall>q\<in>set before. match_zip_patterns fnm entry_name [q] = Inr False"
  shows "match_zip_patterns fnm entry_name (before @ pattern # rest) = Inr True"
proof -
  let ?n = "lstrip_slash (to_posix entry_name)"
  have "match_loop fnm ?n (before @ pattern # rest) = match_loop fnm ?n (pattern # rest)"
    using assms(3) by (intro match_loop_all_false) (simp add: match_zip_patterns_single)
  also have "\<dots> = Inr True"
    using assms(1,2) by (rule match_loop_globstar)
  finally show ?thesis by (simp add: match_zip_patterns_loop)
qed

text \<open>
  Where no pattern of the list makes the matcher raise, an entry matches the list exactly
  when it matches at least one pattern of it.
\<close>

theorem match_any_pattern_when_none_raises:
  assumes "\<forall>p\<in>set patterns. \<exists>b. match_zip_patterns fnm entry_name [p] = Inr b"
  shows "match_zip_patterns fnm entry_name patterns =
           Inr (\<exists>p\<in>set patterns. match_zip_patterns fnm entry_name [p] = Inr True)"
  using assms match_loop_any [of patterns fnm "lstrip_slash (to_posix entry_name)"]
  by (simp add: match_zip_patterns_loop)

text \<open>
  The examples of the specification, for every segment matcher that matches the literal
  pattern \<^verbatim>\<open>processed-csv\<close> against that segment only (as \<^verbatim>\<open>fnmatchcase\<close> does).
\<close>

theorem processed_csv_globstar_examples:
  assumes literal: "\<forall>s. fnm s ''processed-csv'' \<longleftrightarrow> s = ''processed-csv''"
  shows "match_zip_patterns fnm ''processed-csv/a.csv'' [''processed-csv/**''] = Inr True \<and>
         match_zip_patterns fnm ''processed-csv/nested/b.csv'' [''processed-csv/**''] = Inr True \<and>
         match_zip_patterns fnm ''other/processed-csv-like/c.csv'' [''processed-csv/**''] = Inr False \<and>
         match_zip_patterns fnm ''processed-csv.txt'' [''processed-csv/**''] = Inr False"
proof -
  have 1: "match_zip_patterns fnm ''processed-csv/a.csv'' [''processed-csv/**''] = Inr True"
    by (simp add: match_zip_patterns_def to_posix_def lstrip_slash_def endswith_def
          startswith_def)
  have 2: "match_zip_patterns fnm ''processed-csv/nested/b.csv'' [''processed-csv/**''] = Inr True"
    by (simp add: match_zip_patterns_def to_posix_def lstrip_slash_def endswith_def
          startswith_def)
  have 3: "match_zip_patterns fnm ''other/processed-csv-like/c.csv'' [''processed-csv/**''] = Inr False"
    using literal
    by (simp add: match_zip_patterns_def to_posix_def lstrip_slash_def endswith_def
          startswith_def pure_posix_match_def posix_parts_def posix_root_def posix_rel_parts_def)
  have 4: "match_zip_patterns fnm ''processed-csv.txt'' [''processed-csv/**''] = Inr False"
    by (simp add: match_zip_patterns_def to_posix_def lstrip_slash_def endswith_def
          startswith_def pure_posix_match_def posix_parts_def posix_root_def posix_rel_parts_def)
  show ?thesis using 1 2 3 4 by simp
qed

text \<open>
  C4. An entry should match a list exactly when it matches at least one pattern of it. The
  matcher skips the empty pattern before normalising, not after: on the list
  \<^verbatim>\<open>["/", "**"]\<close> the first pattern normalises to the empty path pattern, for which
  \<^verbatim>\<open>PurePosixPath.match\<close> raises \<^verbatim>\<open>ValueError\<close>, although the second pattern alone
  matches the entry.
\<close>

theorem normalised_empty_pattern_raises:
  "match_zip_patterns fnm ''a.csv'' [''/'', ''**''] = Inl ValueError \<and>
   match_zip_patterns fnm ''a.csv'' [''**''] = Inr True"
  by (simp add: match_zip_patterns_def to_posix_def lstrip_slash_def endswith_def
        pure_posix_match_def posix_parts_def posix_root_def posix_rel_parts_def startswith_def)


lemma glob_seg_literal:
  assumes "CHR ''*'' \<notin> set p" and "CHR ''?'' \<notin> set p"
  shows "glob_seg s p \<longleftrightarrow> s = p"
  using assms by (induction s p rule: glob_seg.induct) auto

theorem globstar_matches_prefix_and_below_witness:
  "match_zip_patterns glob_seg ''processed-csv/nested/b.csv'' [''*.txt'', ''processed-csv/**'']
     = Inr True \<and>
   match_zip_patterns glob_seg ''processed-csv/nested/b.csv'' [''*.txt''] = Inr False \<and>
   match_zip_patterns glob_seg ''processed-csv'' [''processed-csv/**''] = Inr True"
proof -
  have pat: "lstrip_slash (to_posix ''processed-csv/**'') = ''processed-csv'' @ ''/**''"
    by code_simp
  have below: "lstrip_slash (to_posix ''processed-csv/nested/b.csv'') = ''processed-csv'' \<or>
      startswith (lstrip_slash (to_posix ''processed-csv/nested/b.csv'')) (''processed-csv'' @ ''/'')"
    by code_simp
  have itself: "lstrip_slash (to_posix ''processed-csv'') = ''processed-csv'' \<or>
      startswith (lstrip_slash (to_posix ''processed-csv'')) (''processed-csv'' @ ''/'')"
    by code_simp
  have before: "match_zip_patterns glob_seg ''processed-csv/nested/b.csv'' [''*.txt''] = Inr False"
    by code_simp
  then have before': "\<forall>q\<in>set [''*.txt''].
      match_zip_patterns glob_seg ''processed-csv/nested/b.csv'' [q] = Inr False"
    by simp
  show ?thesis
    using globstar_matches_prefix_and_below [OF pat below before', of "[]"]
      globstar_matches_prefix_and_below [OF pat itself, of "[]" glob_seg "[]"] before
    by simp
qed

theorem match_any_pattern_when_none_raises_witness:
  "match_zip_patterns glob_seg ''a.csv'' [''*.txt'', ''*.csv''] = Inr True \<and>
   match_zip_patterns glob_seg ''a.csv'' [''*.txt''] = Inr False \<and>
   match_zip_patterns glob_seg ''a.csv'' [''*.csv''] = Inr True"
proof -
  have 1: "match_zip_patterns glob_seg ''a.csv'' [''*.txt''] = Inr False"
    by code_simp
  have 2: "match_zip_patterns glob_seg ''a.csv'' [''*.csv''] = Inr True"
    by code_simp
  have "\<forall>p\<in>set [''*.txt'', ''*.csv'']. \<exists>b. match_zip_patterns glob_seg ''a.csv'' [p] = Inr b"
    using 1 2 by auto
  from match_any_pattern_when_none_raises [OF this] 1 2
  show ?thesis by simp
qed

theorem processed_csv_globstar_examples_witness:
  "(\<forall>s. glob_seg s ''processed-csv'' \<longleftrightarrow> s = ''processed-csv'') \<and>
   match_zip_patterns glob_seg ''processed-csv/a.csv'' [''processed-csv/**''] = Inr True \<and>
   match_zip_patterns glob_seg ''processed-csv/nested/b.csv'' [''processed-csv/**''] = Inr True \<and>
   match_zip_patterns glob_seg ''other/processed-csv-like/c.csv'' [''processed-csv/**''] = Inr False \<and>
   match_zip_patterns glob_seg ''processed-csv.txt'' [''processed-csv/**''] = Inr False"
proof -
  have literal: "\<forall>s. glob_seg s ''processed-csv'' \<longleftrightarrow> s = ''processed-csv''"
    by (simp add: glob_seg_literal)
  show ?thesis
    using processed_csv_globstar_examples [of glob_seg] literal by blast
qed

section \<open>Properties of the extraction engine\<close>

lemma split_on_first: "\<exists>segs. split_on c s = takeWhile (\<lambda>x. x \<noteq> c) s # segs"
  by (induction s) (auto split: list.splits)

lemma to_posix_no_backslash: "\<not> startswith (to_posix s) [CHR 0x5C]"
  by (cases s) (auto simp: to_posix_def startswith_def)

lemma to_posix_idem: "to_posix (to_posix s) = to_posix s"
  by (simp add: to_posix_def)

lemma posix_parts_relative: "\<not> startswith s ''/'' \<Longrightarrow> posix_parts s = posix_rel_parts s"
  by (simp add: posix_parts_def posix_root_def)

lemma dotdot_rel_parts:
  "''..'' \<in> set (posix_rel_parts s) \<longleftrightarrow> ''..'' \<in> set (split_on CHR ''/'' s)"
  by (auto simp: posix_rel_parts_def)

lemma safe_zip_member_name_None:
  "safe_zip_member_name name = None \<longleftrightarrow> unsafe_member_name (to_posix name)"
proof -
  obtain segs where s: "split_on CHR ''/'' (to_posix name) =
      takeWhile (\<lambda>x. x \<noteq> CHR ''/'') (to_posix name) # segs"
    using split_on_first by blast
  show ?thesis
    using to_posix_no_backslash [of name] dotdot_rel_parts [of "to_posix name"]
    by (auto simp: safe_zip_member_name_def unsafe_member_name_def Let_def s posix_parts_relative
             simp del: split_on.simps)
qed

lemma safe_raw_name_None:
  "safe_zip_member_name (raw_name_of info) = None \<longleftrightarrow> unsafe_member_name (raw_name_of info)"
  by (simp add: safe_zip_member_name_None raw_name_of_def to_posix_idem)

lemma extract_loop_Cons:
  "extract_loop fnm env r rr pats (info # rest) st =
     (case extract_loop fnm env r rr pats [info] st of
        (None, st') \<Rightarrow> extract_loop fnm env r rr pats rest st'
      | (Some e, st') \<Rightarrow> (Some e, st'))"
  by (auto simp: Let_def split: option.splits sum.splits bool.splits)

text \<open>What one member does to the state, by the case it falls in.\<close>

lemma extract_one:
  "extract_loop fnm env r rr pats [info] st =
     (case safe_zip_member_name (raw_name_of info) of
        None \<Rightarrow> (None, st\<lparr>warnings := warnings st @ [unsafe_name_warning (raw_name_of info)]\<rparr>)
      | Some safe_name \<Rightarrow>
          if info_is_dir info then (None, st)
          else
            (case match_zip_patterns fnm safe_name pats of
               Inl e \<Rightarrow> (Some e, st)
             | Inr False \<Rightarrow> (None, st)
             | Inr True \<Rightarrow>
                 (let dest = joinpath r (posix_parts safe_name);
                      ev1 = ResolveDest (raw_name_of info) dest;
                      ev2 = ParentMkdir (raw_name_of info) (parent dest);
                      ev3 = CopyMember (raw_name_of info) dest
                  in
                  if \<not> inside_root rr (resolve_path env dest)
                  then (None, st\<lparr>fs_log := fs_log st @ [ev1],
                                 warnings := warnings st @ [escape_warning (raw_name_of info)]\<rparr>)
                  else if fs_fails env ev2 then (Some OSError, st\<lparr>fs_log := fs_log st @ [ev1, ev2]\<rparr>)
                  else if fs_fails env ev3
                  then (Some OSError, st\<lparr>fs_log := fs_log st @ [ev1, ev2, ev3]\<rparr>)
                  else (None, st\<lparr>fs_log := fs_log st @ [ev1, ev2, ev3],
                                 extracted_files := extracted_files st @ [resolve_path env dest]\<rparr>))))"
  by (simp add: Let_def raw_name_of_def unsafe_name_warning_def escape_warning_def inside_root_def
           split: option.splits sum.splits bool.splits)

declare extract_loop.simps(2) [simp del]


lemma extract_loop_invariant:
  assumes step: "\<And>info s r s'. I s \<Longrightarrow>
           extract_loop fnm env r0 rr pats [info] s = (r, s') \<Longrightarrow> I s'"
  shows "I st \<Longrightarrow> I (snd (extract_loop fnm env r0 rr pats infos st))"
proof (induction infos arbitrary: st)
  case Nil
  then show ?case by simp
next
  case (Cons info rest)
  obtain r s' where one: "extract_loop fnm env r0 rr pats [info] st = (r, s')"
    by (cases "extract_loop fnm env r0 rr pats [info] st")
  have inv: "I s'"
    using step [OF Cons.prems one] .
  show ?case
  proof (cases r)
    case None
    have "I (snd (extract_loop fnm env r0 rr pats rest s'))"
      using Cons.IH [OF inv] .
    then show ?thesis
      using one None by (simp add: extract_loop_Cons [of _ _ _ _ _ info rest])
  next
    case (Some e)
    then show ?thesis
      using one inv by (simp add: extract_loop_Cons [of _ _ _ _ _ info rest])
  qed
qed

text \<open>Every extracted path passed the containment test.\<close>

lemma extract_one_inside:
  assumes "list_all (inside_root rr) (extracted_files s)"
    and "extract_loop fnm env r0 rr pats [info] s = (r, s')"
  shows "list_all (inside_root rr) (extracted_files s')"
  using assms
  by (auto simp: extract_one Let_def split: option.splits sum.splits bool.splits if_splits)

lemma extract_loop_inside:
  assumes "list_all (inside_root rr) (extracted_files st)"
  shows "list_all (inside_root rr)
           (extracted_files (snd (extract_loop fnm env r0 rr pats infos st)))"
proof (rule extract_loop_invariant [where I = "\<lambda>s. list_all (inside_root rr) (extracted_files s)"])
  fix info s r s'
  assume "list_all (inside_root rr) (extracted_files s)"
    and "extract_loop fnm env r0 rr pats [info] s = (r, s')"
  then show "list_all (inside_root rr) (extracted_files s')"
    by (rule extract_one_inside)
next
  show "list_all (inside_root rr) (extracted_files st)" by fact
qed

text \<open>
  Every file-system operation is done for a member whose name passed the name check and
  whose sanitised name matched the patterns.
\<close>

lemma extract_one_events:
  assumes "list_all (event_justified fnm pats) (fs_log s)"
    and "extract_loop fnm env r0 rr pats [info] s = (r, s')"
  shows "list_all (event_justified fnm pats) (fs_log s')"
  using assms
  by (auto simp: extract_one Let_def event_justified_def
           split: option.splits sum.splits bool.splits if_splits)

lemma extract_loop_events:
  assumes "list_all (event_justified fnm pats) (fs_log st)"
  shows "list_all (event_justified fnm pats)
           (fs_log (snd (extract_loop fnm env r0 rr pats infos st)))"
proof (rule extract_loop_invariant [where I = "\<lambda>s. list_all (event_justified fnm pats) (fs_log s)"])
  fix info s r s'
  assume "list_all (event_justified fnm pats) (fs_log s)"
    and "extract_loop fnm env r0 rr pats [info] s = (r, s')"
  then show "list_all (event_justified fnm pats) (fs_log s')"
    by (rule extract_one_events)
next
  show "list_all (event_justified fnm pats) (fs_log st)" by fact
qed

text \<open>
  Every warning is one of the two kinds: for a name that failed the name check, or for a
  member that passed the name check and the pattern filter and whose destination escaped.
\<close>

lemma extract_one_warnings:
  assumes "list_all (warning_justified fnm pats) (warnings s)"
    and "extract_loop fnm env r0 rr pats [info] s = (r, s')"
  shows "list_all (warning_justified fnm pats) (warnings s')"
  using assms
  by (auto simp: extract_one Let_def warning_justified_def unsafe_name_warning_def
                 escape_warning_def
           split: option.splits sum.splits bool.splits if_splits)

lemma extract_loop_warnings:
  assumes "list_all (warning_justified fnm pats) (warnings st)"
  shows "list_all (warning_justified fnm pats)
           (warnings (snd (extract_loop fnm env r0 rr pats infos st)))"
proof (rule extract_loop_invariant [where I = "\<lambda>s. list_all (warning_justified fnm pats) (warnings s)"])
  fix info s r s'
  assume "list_all (warning_justified fnm pats) (warnings s)"
    and "extract_loop fnm env r0 rr pats [info] s = (r, s')"
  then show "list_all (warning_justified fnm pats) (warnings s')"
    by (rule extract_one_warnings)
next
  show "list_all (warning_justified fnm pats) (warnings st)" by fact
qed

text \<open>A run that no exception ends has warned about every member with an unsafe name.\<close>

lemma extract_one_keeps_warnings:
  assumes "extract_loop fnm env r0 rr pats [info] s = (r, s')"
  shows "set (warnings s) \<subseteq> set (warnings s')"
  using assms
  by (auto simp: extract_one Let_def split: option.splits sum.splits bool.splits if_splits)

lemma extract_loop_keeps_warnings:
  "w \<in> set (warnings st) \<Longrightarrow>
     w \<in> set (warnings (snd (extract_loop fnm env r0 rr pats infos st)))"
  by (rule extract_loop_invariant [where I = "\<lambda>s. w \<in> set (warnings s)"])
     (use extract_one_keeps_warnings in blast)

lemma extract_loop_warns_unsafe:
  assumes "extract_loop fnm env r0 rr pats infos st = (None, st')"
    and "info \<in> set infos"
    and "safe_zip_member_name (raw_name_of info) = None"
  shows "unsafe_name_warning (raw_name_of info) \<in> set (warnings st')"
  using assms
proof (induction infos arbitrary: st)
  case Nil
  then show ?case by simp
next
  case (Cons i rest)
  obtain r s1 where one: "extract_loop fnm env r0 rr pats [i] st = (r, s1)"
    by (cases "extract_loop fnm env r0 rr pats [i] st")
  have r: "r = None" and rest: "extract_loop fnm env r0 rr pats rest s1 = (None, st')"
    using Cons.prems(1) one
    by (auto simp: extract_loop_Cons [of _ _ _ _ _ i rest] split: option.splits)
  show ?case
  proof (cases "info = i")
    case True
    have "unsafe_name_warning (raw_name_of info) \<in> set (warnings s1)"
      using one True Cons.prems(3) by (auto simp: extract_one)
    then have "unsafe_name_warning (raw_name_of info) \<in>
                 set (warnings (snd (extract_loop fnm env r0 rr pats rest s1)))"
      by (rule extract_loop_keeps_warnings)
    then show ?thesis by (simp add: rest)
  next
    case False
    then have "info \<in> set rest" using Cons.prems(2) by simp
    then show ?thesis using Cons.IH [OF rest _ Cons.prems(3)] by simp
  qed
qed


lemma selected_entries_append:
  "selected_entries (xs @ ys) = selected_entries xs @ selected_entries ys"
  by (induction xs rule: selected_entries.induct) simp_all

lemma extract_one_selected:
  assumes "extract_loop fnm env r0 rr pats [info] s = (None, s')"
  shows "selected_entries (fs_log s') =
         selected_entries (fs_log s) @ (if passes_filters fnm pats info then [raw_name_of info] else [])"
  using assms
  by (auto simp: extract_one Let_def passes_filters_def selected_entries_append
           split: option.splits sum.splits bool.splits if_splits)

lemma extract_loop_selected:
  assumes "extract_loop fnm env r0 rr pats infos st = (None, st')"
  shows "selected_entries (fs_log st') =
         selected_entries (fs_log st) @ map raw_name_of (filter (passes_filters fnm pats) infos)"
  using assms
proof (induction infos arbitrary: st)
  case Nil
  then show ?case by simp
next
  case (Cons i rest)
  obtain r s1 where one: "extract_loop fnm env r0 rr pats [i] st = (r, s1)"
    by (cases "extract_loop fnm env r0 rr pats [i] st")
  have r: "r = None" and rest: "extract_loop fnm env r0 rr pats rest s1 = (None, st')"
    using Cons.prems(1) one
    by (auto simp: extract_loop_Cons [of _ _ _ _ _ i rest] split: option.splits)
  have "selected_entries (fs_log s1) =
        selected_entries (fs_log st) @ (if passes_filters fnm pats i then [raw_name_of i] else [])"
    using one r by (simp add: extract_one_selected)
  then show ?case
    using Cons.IH [OF rest] by simp
qed

lemma manifest_loop_matched:
  assumes "manifest_loop fnm pats infos m0 = Inr m"
  shows "matched_entries m =
         matched_entries m0 @
         map manifest_entry_of
           (filter (\<lambda>i. match_zip_patterns fnm (raw_name_of i) pats = Inr True) infos)"
  using assms
proof (induction infos arbitrary: m0)
  case Nil
  then show ?case by simp
next
  case (Cons i rest)
  show ?case
  proof (cases "match_zip_patterns fnm (raw_name_of i) pats")
    case (Inl e)
    then show ?thesis
      using Cons.prems by (simp add: Let_def raw_name_of_def)
  next
    case (Inr b)
    show ?thesis
    proof (cases b)
      case True
      then show ?thesis
        using Cons.prems Inr
          Cons.IH [of "m0\<lparr>entries := entries m0 @ [manifest_entry_of i],
                          matched_entries := matched_entries m0 @ [manifest_entry_of i]\<rparr>"]
        by (simp add: Let_def raw_name_of_def manifest_entry_of_def)
    next
      case False
      then show ?thesis
        using Cons.prems Inr
          Cons.IH [of "m0\<lparr>entries := entries m0 @ [manifest_entry_of i]\<rparr>"]
        by (simp add: Let_def raw_name_of_def manifest_entry_of_def)
    qed
  qed
qed

lemma extract_zip_members_loop:
  assumes "extract_zip_members fnm env pats out_root infos = (raised, st)"
  shows "st = \<lparr>extracted_files = [], warnings = [], fs_log = [RootMkdir out_root]\<rparr> \<and>
           raised = Some OSError \<or>
         extract_loop fnm env out_root (resolve_path env out_root) pats infos
           \<lparr>extracted_files = [], warnings = [], fs_log = [RootMkdir out_root]\<rparr> = (raised, st)"
  using assms by (auto simp: extract_zip_members_def Let_def split: if_splits)

lemma parents_iff: "q \<in> set (parents p) \<longleftrightarrow> (\<exists>r. r \<noteq> [] \<and> p = q @ r)"
proof
  assume "q \<in> set (parents p)"
  then obtain n where n: "n < length p" "q = take n p"
    by (auto simp: parents_def)
  then have "p = q @ drop n p" "drop n p \<noteq> []" by simp_all
  then show "\<exists>r. r \<noteq> [] \<and> p = q @ r" by blast
next
  assume "\<exists>r. r \<noteq> [] \<and> p = q @ r"
  then obtain r where r: "r \<noteq> []" "p = q @ r" by blast
  then have "length q < length p" "take (length q) p = q" by simp_all
  then show "q \<in> set (parents p)"
    by (force simp: parents_def)
qed

lemma inside_root_suffix: "inside_root rr p \<longleftrightarrow> (\<exists>rel. p = rr @ rel)"
proof
  assume "inside_root rr p"
  then show "\<exists>rel. p = rr @ rel"
    by (auto simp: inside_root_def parents_iff)
next
  assume "\<exists>rel. p = rr @ rel"
  then obtain rel where "p = rr @ rel" by blast
  then show "inside_root rr p"
    by (cases "rel = []") (auto simp: inside_root_def parents_iff)
qed

lemma unsafe_event_absent:
  assumes "list_all (event_justified fnm pats) evs"
    and "safe_zip_member_name n = None"
    and "ev \<in> set evs"
  shows "event_entry ev \<noteq> Some n"
proof
  assume "event_entry ev = Some n"
  moreover have "event_justified fnm pats ev"
    using assms(1,3) by (simp add: list_all_iff)
  ultimately show False
    using assms(2) by (simp add: event_justified_def)
qed

lemma unmatched_event_absent:
  assumes "list_all (event_justified fnm pats) evs"
    and "safe_zip_member_name n = Some s"
    and "match_zip_patterns fnm s pats = Inr False"
    and "ev \<in> set evs"
  shows "event_entry ev \<noteq> Some n"
proof
  assume "event_entry ev = Some n"
  moreover have "event_justified fnm pats ev"
    using assms(1,4) by (simp add: list_all_iff)
  ultimately show False
    using assms(2,3) by (simp add: event_justified_def)
qed

lemma unmatched_warning_absent:
  assumes "list_all (warning_justified fnm pats) ws"
    and "safe_zip_member_name n = Some s"
    and "match_zip_patterns fnm s pats = Inr False"
    and "w \<in> set ws"
  shows "w_entry w \<noteq> n"
proof
  assume "w_entry w = n"
  moreover have "warning_justified fnm pats w"
    using assms(1,4) by (simp add: list_all_iff)
  ultimately show False
    using assms(2,3) by (simp add: warning_justified_def)
qed

text \<open>The facts about a whole run of the extraction that the claims below share.\<close>

lemma extract_zip_members_facts:
  assumes run: "extract_zip_members fnm env pats out_root infos = (raised, st)"
  shows "list_all (inside_root (resolve_path env out_root)) (extracted_files st)"
    and "list_all (event_justified fnm pats) (fs_log st)"
    and "list_all (warning_justified fnm pats) (warnings st)"
    and "raised = None \<Longrightarrow> info \<in> set infos \<Longrightarrow>
           safe_zip_member_name (raw_name_of info) = None \<Longrightarrow>
           unsafe_name_warning (raw_name_of info) \<in> set (warnings st)"
    and "raised = None \<Longrightarrow>
           selected_entries (fs_log st) =
             map raw_name_of (filter (passes_filters fnm pats) infos)"
proof -
  let ?st0 = "\<lparr>extracted_files = [], warnings = [], fs_log = [RootMkdir out_root]\<rparr>"
  let ?rr = "resolve_path env out_root"
  have cases: "st = ?st0 \<and> raised = Some OSError \<or>
               extract_loop fnm env out_root ?rr pats infos ?st0 = (raised, st)"
    using run by (rule extract_zip_members_loop)
  have st: "st = ?st0 \<or> st = snd (extract_loop fnm env out_root ?rr pats infos ?st0)"
    using cases by auto
  have "list_all (inside_root ?rr) (extracted_files ?st0)" by simp
  then show "list_all (inside_root ?rr) (extracted_files st)"
    using st extract_loop_inside [of ?rr ?st0 fnm env out_root pats infos] by auto
  have "list_all (event_justified fnm pats) (fs_log ?st0)"
    by (simp add: event_justified_def)
  then show "list_all (event_justified fnm pats) (fs_log st)"
    using st extract_loop_events [of fnm pats ?st0 env out_root ?rr infos] by auto
  have "list_all (warning_justified fnm pats) (warnings ?st0)" by simp
  then show "list_all (warning_justified fnm pats) (warnings st)"
    using st extract_loop_warnings [of fnm pats ?st0 env out_root ?rr infos] by auto
  show "unsafe_name_warning (raw_name_of info) \<in> set (warnings st)"
    if "raised = None" "info \<in> set infos" "safe_zip_member_name (raw_name_of info) = None"
    using cases that extract_loop_warns_unsafe [of fnm env out_root ?rr pats infos ?st0 st info]
    by auto
  show "selected_entries (fs_log st) = map raw_name_of (filter (passes_filters fnm pats) infos)"
    if "raised = None"
    using cases that extract_loop_selected [of fnm env out_root ?rr pats infos ?st0 st]
    by auto
qed

text \<open>
  C1. Every member whose normalised name is empty, begins with a separator, has a colon in
  its first segment or has a parent-directory segment is skipped before any file-system
  operation is attempted for it, with a name warning in the returned list; and every
  path in \<open>extracted_files\<close> (the resolved destinations) is the resolved destination
  root or lies below it.
\<close>

theorem unsafe_members_skipped_extraction_inside_root:
  assumes run: "extract_zip_members fnm env patterns out_root infos = (raised, st)"
  shows "(\<forall>info\<in>set infos. unsafe_member_name (raw_name_of info) \<longrightarrow>
            (\<forall>ev\<in>set (fs_log st). event_entry ev \<noteq> Some (raw_name_of info)) \<and>
            (raised = None \<longrightarrow> unsafe_name_warning (raw_name_of info) \<in> set (warnings st))) \<and>
         (\<forall>p\<in>set (extracted_files st).
            inside_root (resolve_path env out_root) p \<and>
            (\<exists>rel. p = resolve_path env out_root @ rel))"
proof (intro conjI ballI impI)
  fix info ev
  assume "info \<in> set infos" "unsafe_member_name (raw_name_of info)" "ev \<in> set (fs_log st)"
  then show "event_entry ev \<noteq> Some (raw_name_of info)"
    using extract_zip_members_facts(2) [OF run] unsafe_event_absent safe_raw_name_None
    by blast
next
  fix info
  assume "info \<in> set infos" "unsafe_member_name (raw_name_of info)" "raised = None"
  then show "unsafe_name_warning (raw_name_of info) \<in> set (warnings st)"
    using extract_zip_members_facts(4) [OF run] safe_raw_name_None by blast
next
  fix p
  assume "p \<in> set (extracted_files st)"
  then show in_root: "inside_root (resolve_path env out_root) p"
    using extract_zip_members_facts(1) [OF run] by (simp add: list_all_iff)
  then show "\<exists>rel. p = resolve_path env out_root @ rel"
    by (simp add: inside_root_suffix)
qed


theorem unsafe_members_skipped_extraction_inside_root_witness:
  "extract_zip_members glob_seg plain_fs [''**''] [''tmp'', ''out'']
     [member ''../evil.txt'' False, member ''processed-csv/a.csv'' False] =
     (None,
      \<lparr>extracted_files = [[''tmp'', ''out'', ''processed-csv'', ''a.csv'']],
       warnings = [unsafe_name_warning ''../evil.txt''],
       fs_log = [RootMkdir [''tmp'', ''out''],
                 ResolveDest ''processed-csv/a.csv'' [''tmp'', ''out'', ''processed-csv'', ''a.csv''],
                 ParentMkdir ''processed-csv/a.csv'' [''tmp'', ''out'', ''processed-csv''],
                 CopyMember ''processed-csv/a.csv'' [''tmp'', ''out'', ''processed-csv'', ''a.csv'']]\<rparr>) \<and>
   unsafe_member_name (raw_name_of (member ''../evil.txt'' False)) \<and>
   inside_root (resolve_path plain_fs [''tmp'', ''out'']) [''tmp'', ''out'', ''processed-csv'', ''a.csv'']"
proof -
  let ?st = "\<lparr>extracted_files = [[''tmp'', ''out'', ''processed-csv'', ''a.csv'']],
       warnings = [unsafe_name_warning ''../evil.txt''],
       fs_log = [RootMkdir [''tmp'', ''out''],
                 ResolveDest ''processed-csv/a.csv'' [''tmp'', ''out'', ''processed-csv'', ''a.csv''],
                 ParentMkdir ''processed-csv/a.csv'' [''tmp'', ''out'', ''processed-csv''],
                 CopyMember ''processed-csv/a.csv'' [''tmp'', ''out'', ''processed-csv'', ''a.csv'']]\<rparr>"
  have run: "extract_zip_members glob_seg plain_fs [''**''] [''tmp'', ''out'']
     [member ''../evil.txt'' False, member ''processed-csv/a.csv'' False] = (None, ?st)"
    by code_simp
  have unsafe: "unsafe_member_name (raw_name_of (member ''../evil.txt'' False))"
    by code_simp
  show ?thesis
    using unsafe_members_skipped_extraction_inside_root [OF run] run unsafe
    by simp
qed

text \<open>
  C7, as the code has it. The name check comes first, so a member with an unsafe name is
  warned about whether or not it matches a pattern. The pattern filter comes before the
  containment test of the resolved destination: a member whose name is safe and whose
  sanitised name matches no pattern is skipped with no warning and no file-system
  operation, and every warning is a name warning or the escape warning of a member that
  matched.
\<close>

theorem pattern_filter_follows_name_check:
  assumes run: "extract_zip_members fnm env patterns out_root infos = (raised, st)"
  shows "(\<forall>info\<in>set infos. \<forall>safe_name.
            safe_zip_member_name (raw_name_of info) = Some safe_name \<and>
            match_zip_patterns fnm safe_name patterns = Inr False \<longrightarrow>
              (\<forall>w\<in>set (warnings st). w_entry w \<noteq> raw_name_of info) \<and>
              (\<forall>ev\<in>set (fs_log st). event_entry ev \<noteq> Some (raw_name_of info))) \<and>
         (\<forall>info\<in>set infos. unsafe_member_name (raw_name_of info) \<and> raised = None \<longrightarrow>
            unsafe_name_warning (raw_name_of info) \<in> set (warnings st)) \<and>
         (\<forall>w\<in>set (warnings st). warning_justified fnm patterns w)"
proof (intro conjI ballI impI allI)
  fix info safe_name w
  assume "safe_zip_member_name (raw_name_of info) = Some safe_name \<and>
          match_zip_patterns fnm safe_name patterns = Inr False"
    and "w \<in> set (warnings st)"
  then show "w_entry w \<noteq> raw_name_of info"
    using extract_zip_members_facts(3) [OF run] unmatched_warning_absent by blast
next
  fix info safe_name ev
  assume "safe_zip_member_name (raw_name_of info) = Some safe_name \<and>
          match_zip_patterns fnm safe_name patterns = Inr False"
    and "ev \<in> set (fs_log st)"
  then show "event_entry ev \<noteq> Some (raw_name_of info)"
    using extract_zip_members_facts(2) [OF run] unmatched_event_absent by blast
next
  fix info
  assume "info \<in> set infos" "unsafe_member_name (raw_name_of info) \<and> raised = None"
  then show "unsafe_name_warning (raw_name_of info) \<in> set (warnings st)"
    using extract_zip_members_facts(4) [OF run] safe_raw_name_None by blast
next
  fix w
  assume "w \<in> set (warnings st)"
  then show "warning_justified fnm patterns w"
    using extract_zip_members_facts(3) [OF run] by (simp add: list_all_iff)
qed

theorem pattern_filter_follows_name_check_witness:
  "extract_zip_members glob_seg plain_fs [''processed-csv/**''] [''tmp'', ''out'']
     [member ''notes/readme.txt'' False, member ''../evil.txt'' False] =
     (None,
      \<lparr>extracted_files = [], warnings = [unsafe_name_warning ''../evil.txt''],
       fs_log = [RootMkdir [''tmp'', ''out'']]\<rparr>) \<and>
   safe_zip_member_name (raw_name_of (member ''notes/readme.txt'' False)) = Some ''notes/readme.txt'' \<and>
   match_zip_patterns glob_seg ''notes/readme.txt'' [''processed-csv/**''] = Inr False \<and>
   unsafe_member_name (raw_name_of (member ''../evil.txt'' False)) \<and>
   warning_justified glob_seg [''processed-csv/**''] (unsafe_name_warning ''../evil.txt'')"
proof -
  let ?st = "\<lparr>extracted_files = [], warnings = [unsafe_name_warning ''../evil.txt''],
       fs_log = [RootMkdir [''tmp'', ''out'']]\<rparr>"
  have run: "extract_zip_members glob_seg plain_fs [''processed-csv/**''] [''tmp'', ''out'']
     [member ''notes/readme.txt'' False, member ''../evil.txt'' False] = (None, ?st)"
    by code_simp
  have safe: "safe_zip_member_name (raw_name_of (member ''notes/readme.txt'' False)) =
                Some ''notes/readme.txt''"
    by code_simp
  have nomatch: "match_zip_patterns glob_seg ''notes/readme.txt'' [''processed-csv/**''] = Inr False"
    by code_simp
  have unsafe: "unsafe_member_name (raw_name_of (member ''../evil.txt'' False))"
    by code_simp
  show ?thesis
    using pattern_filter_follows_name_check [OF run] run safe nomatch unsafe
    by simp
qed

text \<open>
  C7 as stated fails: the member \<^verbatim>\<open>../evil.txt\<close> matches no pattern of the list, and the
  extraction still records a warning for it.
\<close>

theorem unmatched_unsafe_member_is_warned:
  "match_zip_patterns glob_seg (raw_name_of (member ''../evil.txt'' False)) [''processed-csv/**'']
     = Inr False \<and>
   extract_zip_members glob_seg plain_fs [''processed-csv/**''] [''tmp'', ''out'']
     [member ''../evil.txt'' False] =
     (None,
      \<lparr>extracted_files = [],
       warnings = [\<lparr>w_type = ''zip_slip_skipped'', w_entry = ''../evil.txt'',
                    w_reason = ''unsafe_member_name''\<rparr>],
       fs_log = [RootMkdir [''tmp'', ''out'']]\<rparr>)"
  by code_simp


lemma build_zip_manifest_matched:
  assumes "build_zip_manifest fnm pats infos = Inr m"
  shows "matched_entries m =
         map manifest_entry_of
           (filter (\<lambda>i. match_zip_patterns fnm (raw_name_of i) pats = Inr True) infos)"
  using manifest_loop_matched [of fnm pats infos "\<lparr>entries = [], matched_entries = []\<rparr>" m] assms
  by (simp add: build_zip_manifest_def)

text \<open>
  C8, as the code has it. The extraction matches the sanitised name of a member and skips
  directories and unsafe names; the manifest matches the stored name of every member. Where
  the name of every member that is not a directory, when it passes the name check, is
  already in sanitised form, the members the extraction selects are, in archive order, the
  matched manifest entries that are not directories and whose name is safe; on an archive
  of safe, sanitised, non-directory members the two lists of names are the same.
\<close>

theorem manifest_extract_parity_on_sanitised_names:
  assumes man: "build_zip_manifest fnm patterns infos = Inr m"
    and run: "extract_zip_members fnm env patterns out_root infos = (None, st)"
    and norm: "\<forall>info\<in>set infos. \<not> info_is_dir info \<longrightarrow>
                 (\<forall>s. safe_zip_member_name (raw_name_of info) = Some s \<longrightarrow> s = raw_name_of info)"
  shows "selected_entries (fs_log st) =
           map m_name (filter (\<lambda>e. \<not> m_is_dir e \<and> \<not> unsafe_member_name (m_name e))
                         (matched_entries m)) \<and>
         ((\<forall>info\<in>set infos. \<not> info_is_dir info \<and> \<not> unsafe_member_name (raw_name_of info)) \<longrightarrow>
            selected_entries (fs_log st) = map m_name (matched_entries m))"
proof -
  let ?M = "\<lambda>i. match_zip_patterns fnm (raw_name_of i) patterns = Inr True"
  let ?Q = "\<lambda>e. \<not> m_is_dir e \<and> \<not> unsafe_member_name (m_name e)"
  let ?R = "\<lambda>i. \<not> info_is_dir i \<and> \<not> unsafe_member_name (raw_name_of i)"
  have sel: "selected_entries (fs_log st) =
             map raw_name_of (filter (passes_filters fnm patterns) infos)"
    using extract_zip_members_facts(5) [OF run] by simp
  have matched: "matched_entries m = map manifest_entry_of (filter ?M infos)"
    using man by (rule build_zip_manifest_matched)
  have pass: "passes_filters fnm patterns i \<longleftrightarrow> ?M i \<and> ?R i" if "i \<in> set infos" for i
  proof (cases "safe_zip_member_name (raw_name_of i)")
    case None
    then show ?thesis
      using safe_raw_name_None [of i] by (simp add: passes_filters_def)
  next
    case (Some s)
    show ?thesis
    proof (cases "info_is_dir i")
      case True
      then show ?thesis
        using Some by (simp add: passes_filters_def)
    next
      case False
      then have "s = raw_name_of i" using Some norm that by blast
      then show ?thesis
        using Some False safe_raw_name_None [of i] by (auto simp: passes_filters_def)
    qed
  qed
  have names: "map m_name (map manifest_entry_of xs) = map raw_name_of xs" for xs
    by (simp add: manifest_entry_of_def)
  have "filter ?Q (map manifest_entry_of (filter ?M infos)) =
        map manifest_entry_of (filter ?R (filter ?M infos))"
    by (simp add: filter_map comp_def manifest_entry_of_def)
  also have "filter ?R (filter ?M infos) = filter (passes_filters fnm patterns) infos"
    using pass by (auto intro: filter_cong)
  finally have "filter ?Q (matched_entries m) =
                map manifest_entry_of (filter (passes_filters fnm patterns) infos)"
    by (simp only: matched)
  then have "map m_name (filter ?Q (matched_entries m)) =
             map raw_name_of (filter (passes_filters fnm patterns) infos)"
    by (simp only: names)
  then have first: "selected_entries (fs_log st) = map m_name (filter ?Q (matched_entries m))"
    by (simp only: sel)
  have second: "selected_entries (fs_log st) = map m_name (matched_entries m)"
    if all: "\<forall>info\<in>set infos. ?R info"
  proof -
    have "filter (passes_filters fnm patterns) infos = filter ?M infos"
      using pass all by (auto intro: filter_cong)
    then have "selected_entries (fs_log st) = map raw_name_of (filter ?M infos)"
      by (simp only: sel)
    also have "\<dots> = map m_name (matched_entries m)"
      by (simp only: matched names)
    finally show ?thesis .
  qed
  show ?thesis using first second by blast
qed

theorem manifest_extract_parity_on_sanitised_names_witness:
  "map m_name (matched_entries (projr (build_zip_manifest glob_seg [''processed-csv/**'', ''*.csv'']
     [member ''processed-csv/'' True, member ''processed-csv/a.csv'' False,
      member ''../x.csv'' False, member ''notes/readme.txt'' False]))) =
     [''processed-csv/'', ''processed-csv/a.csv'', ''../x.csv''] \<and>
   safe_zip_member_name (raw_name_of (member ''processed-csv/'' True)) = Some ''processed-csv'' \<and>
   unsafe_member_name (raw_name_of (member ''../x.csv'' False)) \<and>
   selected_entries (fs_log (snd (extract_zip_members glob_seg plain_fs
     [''processed-csv/**'', ''*.csv''] [''tmp'', ''out'']
     [member ''processed-csv/'' True, member ''processed-csv/a.csv'' False,
      member ''../x.csv'' False, member ''notes/readme.txt'' False]))) =
     [''processed-csv/a.csv''] \<and>
   map m_name (matched_entries (projr (build_zip_manifest glob_seg [''processed-csv/**'']
     [member ''processed-csv/a.csv'' False, member ''raw/b.csv'' False]))) =
     [''processed-csv/a.csv''] \<and>
   selected_entries (fs_log (snd (extract_zip_members glob_seg plain_fs [''processed-csv/**'']
     [''tmp'', ''out''] [member ''processed-csv/a.csv'' False, member ''raw/b.csv'' False]))) =
     [''processed-csv/a.csv'']"
proof -
  let ?pats = "[''processed-csv/**'', ''*.csv'']"
  let ?infos = "[member ''processed-csv/'' True, member ''processed-csv/a.csv'' False,
      member ''../x.csv'' False, member ''notes/readme.txt'' False]"
  let ?m = "projr (build_zip_manifest glob_seg ?pats ?infos)"
  let ?st = "snd (extract_zip_members glob_seg plain_fs ?pats [''tmp'', ''out''] ?infos)"
  have "isl (build_zip_manifest glob_seg ?pats ?infos) = False"
    by code_simp
  then have man: "build_zip_manifest glob_seg ?pats ?infos = Inr ?m"
    by (cases "build_zip_manifest glob_seg ?pats ?infos") simp_all
  have names: "map m_name (matched_entries ?m) =
                 [''processed-csv/'', ''processed-csv/a.csv'', ''../x.csv'']"
    by code_simp
  have dirs: "map m_is_dir (matched_entries ?m) = [True, False, False]"
    by code_simp
  have "fst (extract_zip_members glob_seg plain_fs ?pats [''tmp'', ''out''] ?infos) = None"
    by code_simp
  then have run: "extract_zip_members glob_seg plain_fs ?pats [''tmp'', ''out''] ?infos = (None, ?st)"
    by (simp add: prod_eq_iff)
  have d0: "info_is_dir (member ''processed-csv/'' True)"
    by (simp add: member_def)
  have sd: "safe_zip_member_name (raw_name_of (member ''processed-csv/'' True)) = Some ''processed-csv''"
    by code_simp
  have s1: "safe_zip_member_name (raw_name_of (member ''processed-csv/a.csv'' False)) =
              Some (raw_name_of (member ''processed-csv/a.csv'' False))"
    by code_simp
  have s2: "safe_zip_member_name (raw_name_of (member ''../x.csv'' False)) = None"
    by code_simp
  have s3: "safe_zip_member_name (raw_name_of (member ''notes/readme.txt'' False)) =
              Some (raw_name_of (member ''notes/readme.txt'' False))"
    by code_simp
  have norm: "\<forall>info\<in>set ?infos. \<not> info_is_dir info \<longrightarrow>
                 (\<forall>s. safe_zip_member_name (raw_name_of info) = Some s \<longrightarrow> s = raw_name_of info)"
    using d0 s1 s2 s3 by simp
  have u0: "\<not> unsafe_member_name ''processed-csv/a.csv''"
    by code_simp
  have u1: "unsafe_member_name ''../x.csv''"
    by code_simp
  have u2: "unsafe_member_name (raw_name_of (member ''../x.csv'' False))"
    by code_simp
  have sel: "selected_entries (fs_log ?st) =
           map m_name (filter (\<lambda>e. \<not> m_is_dir e \<and> \<not> unsafe_member_name (m_name e))
                         (matched_entries ?m))"
    using manifest_extract_parity_on_sanitised_names [OF man run norm] by blast
  obtain e1 e2 e3 where es: "matched_entries ?m = [e1, e2, e3]"
    using names by (auto simp: map_eq_Cons_conv)
  have first: "selected_entries (fs_log ?st) = [''processed-csv/a.csv'']"
    using sel names dirs u0 u1 unfolding es by simp
  let ?pats' = "[''processed-csv/**'']"
  let ?infos' = "[member ''processed-csv/a.csv'' False, member ''raw/b.csv'' False]"
  let ?m' = "projr (build_zip_manifest glob_seg ?pats' ?infos')"
  let ?st' = "snd (extract_zip_members glob_seg plain_fs ?pats' [''tmp'', ''out''] ?infos')"
  have "isl (build_zip_manifest glob_seg ?pats' ?infos') = False"
    by code_simp
  then have man': "build_zip_manifest glob_seg ?pats' ?infos' = Inr ?m'"
    by (cases "build_zip_manifest glob_seg ?pats' ?infos'") simp_all
  have names': "map m_name (matched_entries ?m') = [''processed-csv/a.csv'']"
    by code_simp
  have "fst (extract_zip_members glob_seg plain_fs ?pats' [''tmp'', ''out''] ?infos') = None"
    by code_simp
  then have run': "extract_zip_members glob_seg plain_fs ?pats' [''tmp'', ''out''] ?infos' =
                     (None, ?st')"
    by (simp add: prod_eq_iff)
  have s4: "safe_zip_member_name (raw_name_of (member ''raw/b.csv'' False)) =
              Some (raw_name_of (member ''raw/b.csv'' False))"
    by code_simp
  have norm': "\<forall>info\<in>set ?infos'. \<not> info_is_dir info \<longrightarrow>
                 (\<forall>s. safe_zip_member_name (raw_name_of info) = Some s \<longrightarrow> s = raw_name_of info)"
    using s1 s4 by simp
  have u3: "\<not> unsafe_member_name (raw_name_of (member ''processed-csv/a.csv'' False))"
    by code_simp
  have u4: "\<not> unsafe_member_name (raw_name_of (member ''raw/b.csv'' False))"
    by code_simp
  have plain: "\<forall>info\<in>set ?infos'. \<not> info_is_dir info \<and> \<not> unsafe_member_name (raw_name_of info)"
    using u3 u4 by (simp add: member_def)
  have "selected_entries (fs_log ?st') = map m_name (matched_entries ?m')"
    using manifest_extract_parity_on_sanitised_names [OF man' run' norm'] plain
    by blast
  then have second: "selected_entries (fs_log ?st') = [''processed-csv/a.csv'']"
    by (simp only: names')
  show ?thesis
    using names sd u2 first names' second by (intro conjI)
qed

text \<open>
  C8 as stated fails on an archive with an explicit directory member: the manifest lists
  the directory among the matched entries, the extraction never selects it.
\<close>

theorem manifest_matches_directory_extraction_skips_it:
  "build_zip_manifest glob_seg [''processed-csv/**'']
     [member ''processed-csv/'' True, member ''processed-csv/a.csv'' False] =
     Inr \<lparr>entries =
            [\<lparr>m_name = ''processed-csv/'', m_size = 0, m_compressed_size = 0, m_is_dir = True\<rparr>,
             \<lparr>m_name = ''processed-csv/a.csv'', m_size = 0, m_compressed_size = 0,
               m_is_dir = False\<rparr>],
          matched_entries =
            [\<lparr>m_name = ''processed-csv/'', m_size = 0, m_compressed_size = 0, m_is_dir = True\<rparr>,
             \<lparr>m_name = ''processed-csv/a.csv'', m_size = 0, m_compressed_size = 0,
               m_is_dir = False\<rparr>]\<rparr> \<and>
   extract_zip_members glob_seg plain_fs [''processed-csv/**''] [''tmp'', ''out'']
     [member ''processed-csv/'' True, member ''processed-csv/a.csv'' False] =
     (None,
      \<lparr>extracted_files = [[''tmp'', ''out'', ''processed-csv'', ''a.csv'']],
       warnings = [],
       fs_log = [RootMkdir [''tmp'', ''out''],
                 ResolveDest ''processed-csv/a.csv'' [''tmp'', ''out'', ''processed-csv'', ''a.csv''],
                 ParentMkdir ''processed-csv/a.csv'' [''tmp'', ''out'', ''processed-csv''],
                 CopyMember ''processed-csv/a.csv'' [''tmp'', ''out'', ''processed-csv'', ''a.csv'']]\<rparr>)"
  by code_simp

section \<open>Properties of the pointer resolver\<close>

lemma first_zip_typed_find:
  "map_option JDict (first_zip_typed bds) = find is_zip_typed_record bds"
  by (induction bds rule: first_zip_typed.induct) (simp_all add: is_zip_typed_record_def)

lemma first_zip_suffixed_find:
  "map_option JDict (first_zip_suffixed bds) = find is_zip_suffixed_record bds"
  by (induction bds rule: first_zip_suffixed.induct) (simp_all add: is_zip_suffixed_record_def)

lemma legacy_zip_entry_record:
  "map_option JDict (legacy_zip_entry payload) = legacy_record payload"
proof (cases "map_of payload ''batchDownloads''")
  case None
  then show ?thesis by (simp add: legacy_zip_entry_def legacy_record_def)
next
  case (Some v)
  show ?thesis
  proof (cases v)
    case (JList bds)
    show ?thesis
    proof (cases "first_zip_typed bds")
      case None
      then have "find is_zip_typed_record bds = None"
        using first_zip_typed_find [of bds] by simp
      then show ?thesis
        using Some JList None first_zip_suffixed_find [of bds]
        by (simp add: legacy_zip_entry_def legacy_record_def)
    next
      case (Some bd)
      then have "find is_zip_typed_record bds = Some (JDict bd)"
        using first_zip_typed_find [of bds] by simp
      then show ?thesis
        using \<open>map_of payload ''batchDownloads'' = Some v\<close> JList Some
        by (simp add: legacy_zip_entry_def legacy_record_def)
    qed
  qed (use Some in \<open>simp_all add: legacy_zip_entry_def legacy_record_def\<close>)
qed

lemma nonblank_str_Some:
  "nonblank_str v = Some s \<longleftrightarrow> v = Some (JStr s) \<and> strip s \<noteq> []"
  by (auto simp: nonblank_str_def split: option.splits json.splits if_splits)

lemma canonical_download_url_only_outputs:
  assumes "map_of payload' ''outputs'' = map_of payload ''outputs''"
  shows "canonical_download_url payload' = canonical_download_url payload"
  using assms by (simp add: canonical_download_url_def)

text \<open>
  C2, as the code has it. A canonical URL is a \<^verbatim>\<open>download_url\<close> string under
  \<^verbatim>\<open>outputs\<close> with a character that is not white space. The resolver then returns it
  unchanged, with the top-level \<^verbatim>\<open>presigned_url_expiry\<close> exactly when that is a string with
  a character that is not white space (so with no expiry when the field is absent), and
  the answer does not depend on \<^verbatim>\<open>batchDownloads\<close>.
\<close>

theorem canonical_pointer_wins:
  assumes "map_of payload ''outputs'' = Some (JDict outputs)"
    and "map_of outputs ''download_url'' = Some (JStr dl)"
    and "strip dl \<noteq> []"
  shows "zip_download_url (extract_zip_pointer payload) = Some dl \<and>
         (\<forall>e. zip_presigned_expires_at (extract_zip_pointer payload) = Some e \<longleftrightarrow>
               map_of payload ''presigned_url_expiry'' = Some (JStr e) \<and> strip e \<noteq> []) \<and>
         (map_of payload ''presigned_url_expiry'' = None \<longrightarrow>
            zip_presigned_expires_at (extract_zip_pointer payload) = None) \<and>
         (\<forall>payload'. (\<forall>k. k \<noteq> ''batchDownloads'' \<longrightarrow> map_of payload' k = map_of payload k) \<longrightarrow>
            extract_zip_pointer payload' = extract_zip_pointer payload)"
proof -
  have canon: "canonical_download_url payload = Some dl"
    using assms by (simp add: canonical_download_url_def nonblank_str_def)
  then have ptr: "extract_zip_pointer payload =
      \<lparr>zip_download_url = Some dl,
       zip_presigned_expires_at = nonblank_str (map_of payload ''presigned_url_expiry'')\<rparr>"
    by (simp add: extract_zip_pointer_def)
  have indep: "extract_zip_pointer payload' = extract_zip_pointer payload"
    if same: "\<forall>k. k \<noteq> ''batchDownloads'' \<longrightarrow> map_of payload' k = map_of payload k"
    for payload'
  proof -
    have "map_of payload' ''outputs'' = map_of payload ''outputs''"
      and exp: "map_of payload' ''presigned_url_expiry'' = map_of payload ''presigned_url_expiry''"
      using same by simp_all
    then have "canonical_download_url payload' = Some dl"
      using canon canonical_download_url_only_outputs [of payload' payload] by simp
    then show ?thesis
      using ptr exp by (simp add: extract_zip_pointer_def)
  qed
  have url: "zip_download_url (extract_zip_pointer payload) = Some dl"
    by (simp add: ptr)
  have exp_iff: "zip_presigned_expires_at (extract_zip_pointer payload) = Some e \<longleftrightarrow>
                 map_of payload ''presigned_url_expiry'' = Some (JStr e) \<and> strip e \<noteq> []" for e
    by (simp add: ptr nonblank_str_Some)
  have exp_none: "zip_presigned_expires_at (extract_zip_pointer payload) = None"
    if "map_of payload ''presigned_url_expiry'' = None"
    using that by (simp add: ptr nonblank_str_def)
  show ?thesis
    using url exp_iff exp_none indep by blast
qed

theorem canonical_pointer_wins_witness:
  "extract_zip_pointer
     [(''outputs'', JDict [(''download_url'', JStr ''https://h/canonical.zip'')]),
      (''batchDownloads'',
         JList [JDict [(''type'', JStr ''zip''), (''downloadUrl'', JStr ''https://h/legacy.zip''),
                       (''expiresAt'', JStr ''2030-01-01'')]])] =
     \<lparr>zip_download_url = Some ''https://h/canonical.zip'', zip_presigned_expires_at = None\<rparr>"
proof -
  let ?outputs = "[(''download_url'', JStr ''https://h/canonical.zip'')]"
  let ?payload = "[(''outputs'', JDict ?outputs),
      (''batchDownloads'',
         JList [JDict [(''type'', JStr ''zip''), (''downloadUrl'', JStr ''https://h/legacy.zip''),
                       (''expiresAt'', JStr ''2030-01-01'')]])]"
  have 1: "map_of ?payload ''outputs'' = Some (JDict ?outputs)" by simp
  have 2: "map_of ?outputs ''download_url'' = Some (JStr ''https://h/canonical.zip'')" by simp
  have 3: "strip ''https://h/canonical.zip'' \<noteq> []" by code_simp
  have 4: "map_of ?payload ''presigned_url_expiry'' = None" by simp
  have "zip_download_url (extract_zip_pointer ?payload) = Some ''https://h/canonical.zip'' \<and>
        zip_presigned_expires_at (extract_zip_pointer ?payload) = None"
    using canonical_pointer_wins [OF 1 2 3] 4 by blast
  then show ?thesis
    by (cases "extract_zip_pointer ?payload") simp
qed

text \<open>
  C2 as stated fails for a \<^verbatim>\<open>download_url\<close> that is not empty but blank: the resolver
  treats it as absent and answers from \<^verbatim>\<open>batchDownloads\<close>.
\<close>

theorem blank_canonical_url_falls_back:
  "extract_zip_pointer
     [(''outputs'', JDict [(''download_url'', JStr '' '')]),
      (''batchDownloads'',
         JList [JDict [(''type'', JStr ''zip''), (''downloadUrl'', JStr ''https://h/legacy.zip'')]])] =
     \<lparr>zip_download_url = Some ''https://h/legacy.zip'', zip_presigned_expires_at = None\<rparr>"
  by code_simp


text \<open>
  C6, as the code has it. Without a canonical URL the resolver selects, among the
  \<^verbatim>\<open>dict\<close> records of \<^verbatim>\<open>batchDownloads\<close>, the first whose type is \<^verbatim>\<open>zip\<close> and, when
  there is none, the first whose \<^verbatim>\<open>downloadUrl\<close> is a string ending in \<^verbatim>\<open>.zip\<close>, both
  compared without regard to case. With no record selected both fields of the pointer are
  unset. With a record selected, the URL is its \<^verbatim>\<open>downloadUrl\<close> when that is a string with
  a character that is not white space, and is unset otherwise; with the URL set, the
  expiry is the record's \<^verbatim>\<open>expiresAt\<close> under the same test.
\<close>

theorem legacy_fallback_selection:
  assumes "canonical_download_url payload = None"
  shows "(legacy_record payload = None \<longrightarrow>
            extract_zip_pointer payload =
              \<lparr>zip_download_url = None, zip_presigned_expires_at = None\<rparr>) \<and>
         (\<forall>r. legacy_record payload = Some r \<longrightarrow>
            (\<exists>bd. r = JDict bd \<and>
               zip_download_url (extract_zip_pointer payload) =
                 nonblank_str (map_of bd ''downloadUrl'') \<and>
               (zip_download_url (extract_zip_pointer payload) \<noteq> None \<longrightarrow>
                  zip_presigned_expires_at (extract_zip_pointer payload) =
                    nonblank_str (map_of bd ''expiresAt''))))"
proof (cases "legacy_zip_entry payload")
  case None
  then have "legacy_record payload = None"
    using legacy_zip_entry_record [of payload] by simp
  then show ?thesis
    using assms None by (simp add: extract_zip_pointer_def)
next
  case (Some bd)
  then have "legacy_record payload = Some (JDict bd)"
    using legacy_zip_entry_record [of payload] by simp
  then show ?thesis
    using assms Some by (simp add: extract_zip_pointer_def)
qed

theorem legacy_fallback_selection_witness:
  "canonical_download_url
     [(''status'', JStr ''complete''),
      (''batchDownloads'',
         JList [JNull,
                JDict [(''type'', JStr ''csv''), (''downloadUrl'', JStr ''https://h/a.csv'')],
                JDict [(''type'', JStr ''Zip''), (''downloadUrl'', JStr ''https://h/batch''),
                       (''expiresAt'', JStr ''2030-01-01'')]])] = None \<and>
   extract_zip_pointer
     [(''status'', JStr ''complete''),
      (''batchDownloads'',
         JList [JNull,
                JDict [(''type'', JStr ''csv''), (''downloadUrl'', JStr ''https://h/a.csv'')],
                JDict [(''type'', JStr ''Zip''), (''downloadUrl'', JStr ''https://h/batch''),
                       (''expiresAt'', JStr ''2030-01-01'')]])] =
     \<lparr>zip_download_url = Some ''https://h/batch'',
      zip_presigned_expires_at = Some ''2030-01-01''\<rparr>"
proof -
  let ?bd = "[(''type'', JStr ''Zip''), (''downloadUrl'', JStr ''https://h/batch''),
              (''expiresAt'', JStr ''2030-01-01'')]"
  let ?payload = "[(''status'', JStr ''complete''),
      (''batchDownloads'',
         JList [JNull,
                JDict [(''type'', JStr ''csv''), (''downloadUrl'', JStr ''https://h/a.csv'')],
                JDict ?bd])]"
  have canon: "canonical_download_url ?payload = None"
    by code_simp
  have rec: "legacy_record ?payload = Some (JDict ?bd)"
    by code_simp
  have url: "nonblank_str (map_of ?bd ''downloadUrl'') = Some ''https://h/batch''"
    by code_simp
  have exp: "nonblank_str (map_of ?bd ''expiresAt'') = Some ''2030-01-01''"
    by code_simp
  have "zip_download_url (extract_zip_pointer ?payload) = Some ''https://h/batch'' \<and>
        zip_presigned_expires_at (extract_zip_pointer ?payload) = Some ''2030-01-01''"
    using legacy_fallback_selection [OF canon] rec url exp by auto
  then show ?thesis
    using canon by (cases "extract_zip_pointer ?payload") simp
qed

text \<open>
  C6 as stated fails twice. The URL test ignores case, so a record whose URL ends in
  \<^verbatim>\<open>.ZIP\<close> is selected before a later one ending in \<^verbatim>\<open>.zip\<close>; and a selected record with
  an expiry and no URL gives a pointer whose URL is unset and whose expiry is set.
\<close>

theorem legacy_suffix_ignores_case_and_expiry_without_url:
  "extract_zip_pointer
     [(''batchDownloads'',
         JList [JDict [(''downloadUrl'', JStr ''https://h/A.ZIP'')],
                JDict [(''downloadUrl'', JStr ''https://h/b.zip'')]])] =
     \<lparr>zip_download_url = Some ''https://h/A.ZIP'', zip_presigned_expires_at = None\<rparr> \<and>
   extract_zip_pointer
     [(''batchDownloads'',
         JList [JDict [(''type'', JStr ''zip''), (''expiresAt'', JStr ''2030-01-01'')]])] =
     \<lparr>zip_download_url = None, zip_presigned_expires_at = Some ''2030-01-01''\<rparr>"
  by code_simp

section \<open>Properties of the download requests\<close>

lemma requests_ok_iff:
  "requests_ok net key sent \<longleftrightarrow>
     (\<forall>i<length sent. request_ok net key (take i sent) (sent ! i))"
  by (auto simp: requests_ok_def list_all_iff)

lemma requests_ok_snoc:
  "requests_ok net key (sent @ [x]) \<longleftrightarrow>
     requests_ok net key sent \<and> request_ok net key sent x"
  by (auto simp: requests_ok_iff less_Suc_eq nth_append)

lemma request_ok_first:
  "request_ok net key sent
     \<lparr>req_url = url, req_headers = (if is_presigned_s3_url url then [] else bearer key)\<rparr>"
  by (simp add: request_ok_def)

lemma request_ok_retry:
  assumes "is_presigned_s3_url url"
    and "net sent \<lparr>req_url = url, req_headers = []\<rparr> = Response 401"
  shows "request_ok net key (sent @ [\<lparr>req_url = url, req_headers = []\<rparr>])
           \<lparr>req_url = url, req_headers = bearer key\<rparr>"
  using assms by (simp add: request_ok_def)

lemma download_one_requests:
  "requests (download_one env key i url st) =
     requests st @
     (let req1 = \<lparr>req_url = url,
                  req_headers = (if is_presigned_s3_url url then [] else bearer key)\<rparr>
      in if is_presigned_s3_url url \<and> http env (requests st) req1 = Response 401
         then [req1, \<lparr>req_url = url, req_headers = bearer key\<rparr>]
         else [req1])"
  by (auto simp: download_one_def Let_def split: http_outcome.splits)

lemma download_one_ok:
  assumes "requests_ok (http env) key (requests st)"
  shows "requests_ok (http env) key (requests (download_one env key i url st))"
proof (cases "is_presigned_s3_url url \<and>
              http env (requests st) \<lparr>req_url = url, req_headers = []\<rparr> = Response 401")
  case True
  then have "requests (download_one env key i url st) =
             (requests st @ [\<lparr>req_url = url, req_headers = []\<rparr>]) @
             [\<lparr>req_url = url, req_headers = bearer key\<rparr>]"
    by (simp add: download_one_requests)
  moreover have "request_ok (http env) key (requests st) \<lparr>req_url = url, req_headers = []\<rparr>"
    using True request_ok_first [of "http env" key "requests st" url] by simp
  moreover have "request_ok (http env) key (requests st @ [\<lparr>req_url = url, req_headers = []\<rparr>])
                   \<lparr>req_url = url, req_headers = bearer key\<rparr>"
    using True by (intro request_ok_retry) simp_all
  ultimately show ?thesis
    using assms by (simp only: requests_ok_snoc)
next
  case False
  then have "requests (download_one env key i url st) =
             requests st @ [\<lparr>req_url = url,
                             req_headers = (if is_presigned_s3_url url then [] else bearer key)\<rparr>]"
    by (auto simp: download_one_requests)
  then show ?thesis
    using assms request_ok_first [of "http env" key "requests st" url]
    by (simp only: requests_ok_snoc)
qed

lemma download_loop_ok:
  "requests_ok (http env) key (requests st) \<Longrightarrow>
     requests_ok (http env) key (requests (download_loop env key i urls st))"
  by (induction urls arbitrary: i st) (simp_all add: download_one_ok)

lemma tool_requests_ok:
  assumes "usable_key (py_or api_key_override env_key) = Some key"
  shows "requests_ok (http env) key
           (requests_of (download_processed_files_impl env urls api_key_override env_key))"
proof -
  have "requests_ok (http env) key (requests \<lparr>requests = [], downloaded = [], errors = []\<rparr>)"
    by (simp add: requests_ok_def)
  then have "requests_ok (http env) key
               (requests (download_loop env key 0 urls
                  \<lparr>requests = [], downloaded = [], errors = []\<rparr>))"
    by (rule download_loop_ok)
  then show ?thesis
    using assms
    by (simp add: download_processed_files_impl_def requests_of_def Let_def requests_ok_def)
qed

lemma tool_requests_no_key:
  assumes "usable_key (py_or api_key_override env_key) = None"
  shows "requests_of (download_processed_files_impl env urls api_key_override env_key) = []"
  using assms by (simp add: download_processed_files_impl_def requests_of_def)

lemma fetcher_requests:
  assumes "r \<in> set (snd (download_zip_to_temp_file env zip_url api_key_override env_key temp_dir))"
  shows "r = \<lparr>req_url = zip_url,
              req_headers =
                (if is_presigned_s3_url zip_url then []
                 else (case usable_key (py_or api_key_override env_key) of
                         Some key \<Rightarrow> bearer key | None \<Rightarrow> []))\<rparr>"
  using assms
  by (auto simp: download_zip_to_temp_file_def Let_def
           split: if_splits http_outcome.splits option.splits)

lemma fetcher_one_request:
  "length (snd (download_zip_to_temp_file env zip_url api_key_override env_key temp_dir)) \<le> 1"
  by (simp add: download_zip_to_temp_file_def Let_def split: http_outcome.splits)

text \<open>
  C9, as the code has it. The fetcher sends at most one request, to the URL it is given,
  with the bearer header exactly when the URL is not detected as pre-signed and a key is
  available, and never to a URL detected as pre-signed. The file-download tool sends it with the first request for a URL exactly
  when the URL is not detected as pre-signed; a request of the tool that carries the
  header to a URL detected as pre-signed is the retry that follows an unauthenticated
  request for the same URL answered 401. Without a key the tool sends nothing.
\<close>

theorem bearer_header_policy:
  "length (snd (download_zip_to_temp_file env zip_url api_key_override env_key temp_dir)) \<le> 1 \<and>
   (\<forall>r\<in>set (snd (download_zip_to_temp_file env zip_url api_key_override env_key temp_dir)).
      req_url r = zip_url \<and>
      (is_presigned_s3_url zip_url \<longrightarrow> req_headers r = []) \<and>
      (\<not> is_presigned_s3_url zip_url \<longrightarrow>
         req_headers r =
           (case usable_key (py_or api_key_override env_key) of
              Some key \<Rightarrow> bearer key | None \<Rightarrow> []))) \<and>
   (\<forall>key. usable_key (py_or api_key_override env_key) = Some key \<longrightarrow>
      (\<forall>i<length (requests_of (download_processed_files_impl env urls api_key_override env_key)).
         request_ok (http env) key
           (take i (requests_of (download_processed_files_impl env urls api_key_override env_key)))
           (requests_of (download_processed_files_impl env urls api_key_override env_key) ! i))) \<and>
   (usable_key (py_or api_key_override env_key) = None \<longrightarrow>
      requests_of (download_processed_files_impl env urls api_key_override env_key) = [])"
proof (intro conjI ballI allI impI)
  show "length (snd (download_zip_to_temp_file env zip_url api_key_override env_key temp_dir)) \<le> 1"
    by (rule fetcher_one_request)
next
  fix r
  assume r: "r \<in> set (snd (download_zip_to_temp_file env zip_url api_key_override env_key temp_dir))"
  note eq = fetcher_requests [OF r]
  show "req_url r = zip_url" by (subst eq) simp
  show "req_headers r = []" if "is_presigned_s3_url zip_url"
    using that by (subst eq) simp
  show "req_headers r =
          (case usable_key (py_or api_key_override env_key) of
             Some key \<Rightarrow> bearer key | None \<Rightarrow> [])" if "\<not> is_presigned_s3_url zip_url"
    using that by (subst eq) simp
next
  fix key i
  assume "usable_key (py_or api_key_override env_key) = Some key"
    and "i < length (requests_of (download_processed_files_impl env urls api_key_override env_key))"
  then show "request_ok (http env) key
           (take i (requests_of (download_processed_files_impl env urls api_key_override env_key)))
           (requests_of (download_processed_files_impl env urls api_key_override env_key) ! i)"
    using tool_requests_ok [of api_key_override env_key key env urls]
    by (simp add: requests_ok_iff)
next
  assume "usable_key (py_or api_key_override env_key) = None"
  then show "requests_of (download_processed_files_impl env urls api_key_override env_key) = []"
    by (rule tool_requests_no_key)
qed


theorem bearer_header_policy_witness:
  "usable_key (py_or (Some ''k'') None) = Some ''k'' \<and>
   is_presigned_s3_url ''https://b.s3.amazonaws.com/f.zip'' \<and>
   snd (download_zip_to_temp_file (answering 200) ''https://b.s3.amazonaws.com/f.zip''
          (Some ''k'') None None) =
     [\<lparr>req_url = ''https://b.s3.amazonaws.com/f.zip'', req_headers = []\<rparr>] \<and>
   requests_of (download_processed_files_impl (answering 200)
                  [''https://b.s3.amazonaws.com/f.zip'', ''https://api.example/f.zip'']
                  (Some ''k'') None) =
     [\<lparr>req_url = ''https://b.s3.amazonaws.com/f.zip'', req_headers = []\<rparr>,
      \<lparr>req_url = ''https://api.example/f.zip'',
        req_headers = [(''Authorization'', ''Bearer k'')]\<rparr>]"
proof -
  have key: "usable_key (py_or (Some ''k'') None) = Some ''k''"
    by code_simp
  have pre: "is_presigned_s3_url ''https://b.s3.amazonaws.com/f.zip''"
    by code_simp
  have fetch: "snd (download_zip_to_temp_file (answering 200) ''https://b.s3.amazonaws.com/f.zip''
          (Some ''k'') None None) =
     [\<lparr>req_url = ''https://b.s3.amazonaws.com/f.zip'', req_headers = []\<rparr>]"
    by code_simp
  have tool: "requests_of (download_processed_files_impl (answering 200)
                  [''https://b.s3.amazonaws.com/f.zip'', ''https://api.example/f.zip'']
                  (Some ''k'') None) =
     [\<lparr>req_url = ''https://b.s3.amazonaws.com/f.zip'', req_headers = []\<rparr>,
      \<lparr>req_url = ''https://api.example/f.zip'',
        req_headers = [(''Authorization'', ''Bearer k'')]\<rparr>]"
    by code_simp
  show ?thesis
    using bearer_header_policy [of "answering 200" "''https://b.s3.amazonaws.com/f.zip''"
        "Some ''k''" None None
        "[''https://b.s3.amazonaws.com/f.zip'', ''https://api.example/f.zip'']"]
      key pre fetch tool
    by simp
qed

text \<open>
  C9 as stated fails for the file-download tool: when a URL detected as pre-signed answers
  401, the tool repeats the request with the bearer header (server.py, lines 807-812).
\<close>

theorem tool_retries_presigned_url_with_bearer:
  "is_presigned_s3_url ''https://b.s3.amazonaws.com/f.zip'' \<and>
   requests_of (download_processed_files_impl (answering 401)
                  [''https://b.s3.amazonaws.com/f.zip''] (Some ''k'') None) =
     [\<lparr>req_url = ''https://b.s3.amazonaws.com/f.zip'', req_headers = []\<rparr>,
      \<lparr>req_url = ''https://b.s3.amazonaws.com/f.zip'',
        req_headers = [(''Authorization'', ''Bearer k'')]\<rparr>]"
  by code_simp

section \<open>Properties of the workflow orchestrator\<close>

lemma map_of_dict_set: "map_of (dict_set k v d) = (map_of d)(k \<mapsto> v)"
  by (induction d) auto

lemma dict_get_dict_set:
  "dict_get (dict_set k v d) k' = (if k' = k then v else dict_get d k')"
  by (simp add: dict_get_def map_of_dict_set)

lemma check_batch_status_payload:
  "dict_get (check_batch_status (StatusPayload p)) ''success'' = JBool True"
  "dict_get_or (check_batch_status (StatusPayload p)) ''status'' d = dict_get p ''status''"
  "dict_get (check_batch_status (StatusPayload p)) ''zip_download_url'' =
     opt_str (zip_download_url (extract_zip_pointer p))"
  by (simp_all add: check_batch_status_def dict_get_def dict_get_or_def Let_def)

lemma check_batch_status_failure:
  "dict_get (check_batch_status (StatusFailure e)) ''success'' = JBool False"
  by (simp add: check_batch_status_def dict_get_def)

lemma fetch_count_append: "fetch_count (xs @ ys) = fetch_count xs + fetch_count ys"
  by (simp add: fetch_count_def)

lemma fetch_count_simps:
  "fetch_count [] = 0"
  "fetch_count (ZipFetch m u # tr) = Suc (fetch_count tr)"
  "fetch_count (StatusQuery # tr) = fetch_count tr"
  "fetch_count (ClockRead # tr) = fetch_count tr"
  "fetch_count (Sleep # tr) = fetch_count tr"
  by (simp_all add: fetch_count_def)

lemma poll_loop_no_fetch:
  "fetch_count (snd (poll_loop env deadline fuel tr)) = fetch_count tr"
  by (induction fuel arbitrary: tr)
     (simp_all add: Let_def fetch_count_append fetch_count_simps)

text \<open>The events of the ZIP stage, by the answer of the first tool call.\<close>

lemma zip_stage_events:
  "snd (zip_stage env tr m url result) =
     tr @ ZipFetch m url #
     (case zip_tool env tr m url of
        Inl e \<Rightarrow> []
      | Inr zip_result \<Rightarrow>
          if \<not> zt_success zip_result \<and> zt_http_status zip_result = Some 403 then
            (let refreshed = check_batch_status (status_reply env (tr @ [ZipFetch m url]));
                 new_url = (if truthy (dict_get refreshed ''zip_download_url'')
                            then dict_get refreshed ''zip_download_url'' else url)
             in
             if truthy (dict_get refreshed ''success'') \<and> truthy new_url
             then [StatusQuery, ZipFetch m new_url]
             else [StatusQuery])
          else [])"
  by (simp add: zip_stage_def Let_def split: sum.splits)

lemma zip_stage_fetch_count:
  "fetch_count (snd (zip_stage env tr m url result)) \<le> fetch_count tr + 2"
  by (simp add: zip_stage_events fetch_count_append fetch_count_simps Let_def split: sum.splits)

lemma after_poll_fetch_count:
  "fetch_count (snd (after_poll env args batch_id deadline last_status tr)) \<le> fetch_count tr + 2"
proof -
  have stage: "fetch_count (snd (zip_stage env (tr @ [ClockRead]) m url result)) \<le> fetch_count tr + 2"
    for m url result
    using zip_stage_fetch_count [of env "tr @ [ClockRead]" m url result]
    by (simp add: fetch_count_append fetch_count_simps)
  have stage': "fetch_count tr2 \<le> Suc (Suc (fetch_count tr))"
    if "zip_stage env (tr @ [ClockRead]) m url result = (r, tr2)" for m url result r tr2
    using stage [of m url result] that by simp
  show ?thesis
    unfolding after_poll_def Let_def
    by (auto simp: fetch_count_append fetch_count_simps
             split: sum.splits prod.splits dest: stage')
qed


lemma after_poll_urls:
  assumes "result_mode args = Urls"
  shows "fetch_count (snd (after_poll env args batch_id deadline last_status tr)) = fetch_count tr"
  using assms unfolding after_poll_def Let_def
  by (auto simp: fetch_count_append fetch_count_simps split: sum.splits prod.splits)

lemma workflow_trace_cases:
  "snd (process_rent_roll_workflow env args fuel) = [] \<or>
   snd (process_rent_roll_workflow env args fuel) =
     snd (poll_loop env (monotonic env [] + timeout_seconds args) fuel [ClockRead]) \<or>
   (\<exists>batch_id last_status.
      snd (process_rent_roll_workflow env args fuel) =
        snd (after_poll env args batch_id (monotonic env [] + timeout_seconds args) last_status
               (snd (poll_loop env (monotonic env [] + timeout_seconds args) fuel [ClockRead]))))"
  unfolding process_rent_roll_workflow_def Let_def
  by (auto split: prod.splits poll_outcome.splits)

lemma workflow_fetch_count:
  "fetch_count (snd (process_rent_roll_workflow env args fuel)) \<le> 2"
proof -
  let ?d = "monotonic env [] + timeout_seconds args"
  let ?tr = "snd (poll_loop env ?d fuel [ClockRead])"
  have poll: "fetch_count ?tr = 0"
    using poll_loop_no_fetch [of env ?d fuel "[ClockRead]"] by (simp add: fetch_count_simps)
  have after: "fetch_count (snd (after_poll env args b ?d l ?tr)) \<le> 2" for b l
    using after_poll_fetch_count [of env args b ?d l ?tr] poll by simp
  show ?thesis
    using workflow_trace_cases [of env args fuel] poll after
    by (auto simp: fetch_count_simps)
qed

lemma workflow_urls_no_fetch:
  assumes "result_mode args = Urls"
  shows "fetch_count (snd (process_rent_roll_workflow env args fuel)) = 0"
proof -
  let ?d = "monotonic env [] + timeout_seconds args"
  let ?tr = "snd (poll_loop env ?d fuel [ClockRead])"
  have poll: "fetch_count ?tr = 0"
    using poll_loop_no_fetch [of env ?d fuel "[ClockRead]"] by (simp add: fetch_count_simps)
  have after: "fetch_count (snd (after_poll env args b ?d l ?tr)) = 0" for b l
    using after_poll_urls [OF assms, of env b ?d l ?tr] poll by simp
  show ?thesis
    using workflow_trace_cases [of env args fuel] poll after
    by (auto simp: fetch_count_simps)
qed

lemma workflow_reaches_poll:
  assumes "strip (notification_email args) \<noteq> [] \<or> strip (environ_email env) \<noteq> []"
    and "truthy (dict_get (upload_rent_rolls env) ''success'')"
    and "truthy (dict_get (upload_rent_rolls env) ''batchId'')"
    and "poll_loop env (monotonic env [] + timeout_seconds args) fuel [ClockRead] =
           (PollBreak last_status, tr)"
  shows "process_rent_roll_workflow env args fuel =
           after_poll env args (dict_get (upload_rent_rolls env) ''batchId'')
             (monotonic env [] + timeout_seconds args) last_status tr"
  using assms by (auto simp: process_rent_roll_workflow_def Let_def)

lemma fetch_count_Cons_zero:
  "fetch_count (x # xs) = 0 \<longleftrightarrow> \<not> is_zip_fetch x \<and> fetch_count xs = 0"
  by (simp add: fetch_count_def)

lemma first_fetch_unique:
  assumes "xs @ ZipFetch a b # ys = xs' @ ZipFetch a' b' # ys'"
    and "fetch_count xs = 0" and "fetch_count xs' = 0"
  shows "xs = xs' \<and> a = a' \<and> b = b' \<and> ys = ys'"
  using assms
proof (induction xs arbitrary: xs')
  case Nil
  show ?case
  proof (cases xs')
    case Nil
    then show ?thesis using Nil.prems(1) by simp
  next
    case (Cons x' xs'')
    then have "x' = ZipFetch a b" using Nil.prems(1) by simp
    then show ?thesis using Nil.prems(3) Cons by (simp add: fetch_count_Cons_zero)
  qed
next
  case (Cons x xs)
  show ?case
  proof (cases xs')
    case Nil
    then have "x = ZipFetch a' b'" using Cons.prems(1) by simp
    then show ?thesis using Cons.prems(2) by (simp add: fetch_count_Cons_zero)
  next
    case (Cons x' xs'')
    have x: "x = x'" and eq: "xs @ ZipFetch a b # ys = xs'' @ ZipFetch a' b' # ys'"
      using Cons.prems(1) Cons by simp_all
    have z: "fetch_count xs = 0" "fetch_count xs'' = 0"
      using Cons.prems(2,3) Cons by (simp_all add: fetch_count_Cons_zero)
    show ?thesis
      using Cons.IH [OF eq z] x Cons by simp
  qed
qed

lemma stage_outcome_snd:
  "snd (case stage of
          (Inl e, tr2) \<Rightarrow> (Raised e, tr2)
        | (Inr (zip_result, result1), tr2) \<Rightarrow> (Returned (f zip_result result1), tr2)) =
   snd stage"
  by (cases stage) (auto split: sum.splits)

lemma after_poll_snd:
  "snd (after_poll env args batch_id deadline last_status tr) =
     (case resolve_output_dir env of
        Inl e \<Rightarrow> tr
      | Inr out \<Rightarrow>
          if (deadline \<le> monotonic env tr \<and>
              \<not> is_terminal_status (dict_get_or last_status ''status'' (JStr []))) \<or>
             result_mode args = Urls \<or> \<not> truthy (fst (resolve_pointer last_status))
          then tr @ [ClockRead]
          else snd (zip_stage env (tr @ [ClockRead]) (result_mode args)
                      (fst (resolve_pointer last_status))
                      (base_result args batch_id last_status (fst (resolve_pointer last_status))
                         (snd (resolve_pointer last_status)) (fst out)
                         (status_warnings last_status @ snd out))))"
proof (cases "resolve_output_dir env")
  case (Inl e)
  then show ?thesis
    by (simp add: after_poll_def Let_def case_prod_beta)
next
  case (Inr out)
  obtain url expires where ptr: "resolve_pointer last_status = (url, expires)"
    by (cases "resolve_pointer last_status")
  obtain dir dw where out: "out = (dir, dw)" by (cases out)
  let ?stage = "zip_stage env (tr @ [ClockRead]) (result_mode args) url
                  (base_result args batch_id last_status url expires dir
                     (status_warnings last_status @ dw))"
  have "snd (case ?stage of
               (Inl e, tr2) \<Rightarrow> (Raised e, tr2)
             | (Inr (zip_result, result1), tr2) \<Rightarrow>
                 (Returned (finish_result env (result_mode args) zip_result result1), tr2)) =
        snd ?stage"
    by (rule stage_outcome_snd)
  then show ?thesis
    using Inr ptr out by (simp add: after_poll_def Let_def)
qed


lemma workflow_first_fetch:
  assumes run: "snd (process_rent_roll_workflow env args fuel) = pre @ ZipFetch m url # rest"
    and pre: "fetch_count pre = 0"
  shows "m = result_mode args \<and>
         rest =
           (case zip_tool env pre m url of
              Inl e \<Rightarrow> []
            | Inr zip_result \<Rightarrow>
                if \<not> zt_success zip_result \<and> zt_http_status zip_result = Some 403 then
                  (let refreshed = check_batch_status (status_reply env (pre @ [ZipFetch m url]));
                       new_url = (if truthy (dict_get refreshed ''zip_download_url'')
                                  then dict_get refreshed ''zip_download_url'' else url)
                   in
                   if truthy (dict_get refreshed ''success'') \<and> truthy new_url
                   then [StatusQuery, ZipFetch m new_url]
                   else [StatusQuery])
                else [])"
proof -
  let ?d = "monotonic env [] + timeout_seconds args"
  let ?tr = "snd (poll_loop env ?d fuel [ClockRead])"
  let ?run = "snd (process_rent_roll_workflow env args fuel)"
  have poll: "fetch_count ?tr = 0"
    using poll_loop_no_fetch [of env ?d fuel "[ClockRead]"] by (simp add: fetch_count_simps)
  have poll1: "fetch_count (?tr @ [ClockRead]) = 0"
    using poll by (simp add: fetch_count_append fetch_count_simps)
  have pos: "fetch_count ?run \<noteq> 0"
    using run by (simp add: fetch_count_append fetch_count_simps)
  obtain b l where after: "?run = snd (after_poll env args b ?d l ?tr)"
    using workflow_trace_cases [of env args fuel] poll pos
    by (auto simp: fetch_count_simps)
  have "?run = ?tr \<or> ?run = ?tr @ [ClockRead] \<or>
        (\<exists>url' result'. ?run = snd (zip_stage env (?tr @ [ClockRead]) (result_mode args) url' result'))"
    unfolding after after_poll_snd
    by (simp split: sum.splits) blast
  then obtain url' result' where
    stage: "?run = snd (zip_stage env (?tr @ [ClockRead]) (result_mode args) url' result')"
    using pos poll poll1 by auto
  have "pre @ ZipFetch m url # rest =
        (?tr @ [ClockRead]) @ ZipFetch (result_mode args) url' #
          (case zip_tool env (?tr @ [ClockRead]) (result_mode args) url' of
              Inl e \<Rightarrow> []
            | Inr zip_result \<Rightarrow>
                if \<not> zt_success zip_result \<and> zt_http_status zip_result = Some 403 then
                  (let refreshed = check_batch_status
                         (status_reply env ((?tr @ [ClockRead]) @ [ZipFetch (result_mode args) url']));
                       new_url = (if truthy (dict_get refreshed ''zip_download_url'')
                                  then dict_get refreshed ''zip_download_url'' else url')
                   in
                   if truthy (dict_get refreshed ''success'') \<and> truthy new_url
                   then [StatusQuery, ZipFetch (result_mode args) new_url]
                   else [StatusQuery])
                else [])"
    using run stage zip_stage_events [of env "?tr @ [ClockRead]" "result_mode args" url' result']
    by simp
  from first_fetch_unique [OF this pre poll1]
  have same: "pre = ?tr @ [ClockRead]" "m = result_mode args" "url = url'"
    and rest: "rest =
          (case zip_tool env (?tr @ [ClockRead]) (result_mode args) url' of
              Inl e \<Rightarrow> []
            | Inr zip_result \<Rightarrow>
                if \<not> zt_success zip_result \<and> zt_http_status zip_result = Some 403 then
                  (let refreshed = check_batch_status
                         (status_reply env ((?tr @ [ClockRead]) @ [ZipFetch (result_mode args) url']));
                       new_url = (if truthy (dict_get refreshed ''zip_download_url'')
                                  then dict_get refreshed ''zip_download_url'' else url')
                   in
                   if truthy (dict_get refreshed ''success'') \<and> truthy new_url
                   then [StatusQuery, ZipFetch (result_mode args) new_url]
                   else [StatusQuery])
                else [])"
    by simp_all
  show ?thesis
    unfolding same by (rule conjI [OF refl rest])
qed

text \<open>A run that gets to the ZIP stage fetches the ZIP right after the clock reading.\<close>

lemma workflow_fetches:
  assumes "strip (notification_email args) \<noteq> [] \<or> strip (environ_email env) \<noteq> []"
    and "truthy (dict_get (upload_rent_rolls env) ''success'')"
    and "truthy (dict_get (upload_rent_rolls env) ''batchId'')"
    and "poll_loop env (monotonic env [] + timeout_seconds args) fuel [ClockRead] =
           (PollBreak last_status, tr)"
    and "resolve_output_dir env = Inr out"
    and "\<not> (monotonic env [] + timeout_seconds args \<le> monotonic env tr \<and>
            \<not> is_terminal_status (dict_get_or last_status ''status'' (JStr [])))"
    and "result_mode args \<noteq> Urls"
    and "truthy (fst (resolve_pointer last_status))"
  shows "\<exists>rest. snd (process_rent_roll_workflow env args fuel) =
           tr @ ClockRead #
             ZipFetch (result_mode args) (fst (resolve_pointer last_status)) # rest"
proof -
  have "snd (process_rent_roll_workflow env args fuel) =
        snd (zip_stage env (tr @ [ClockRead]) (result_mode args)
               (fst (resolve_pointer last_status))
               (base_result args (dict_get (upload_rent_rolls env) ''batchId'') last_status
                  (fst (resolve_pointer last_status))
                  (snd (resolve_pointer last_status)) (fst out)
                  (status_warnings last_status @ snd out)))"
    using workflow_reaches_poll [OF assms(1-4)] assms(5-8)
    by (auto simp: after_poll_snd)
  then show ?thesis
    by (simp add: zip_stage_events)
qed

text \<open>
  C3, as the code has it, of the events of a run of the workflow. In every execution the
  workflow calls a ZIP tool at most twice, and never in mode \<^verbatim>\<open>urls\<close>. Where the events
  of the run have a first call of a ZIP tool, that call is in the mode asked for, and what
  follows it is fixed by its answer: nothing, unless the call failed with status 403; then
  the status is queried once more (its pointer resolved again by the status tool), and when
  that query succeeds the tool is called once more, with the refreshed URL when there is
  one and with the previous URL otherwise; nothing follows the second call, whatever its
  result. And the first call is made: a run whose polling ended (not by the deadline with
  a status that is not terminal), whose output directory resolves, in a mode other than
  \<^verbatim>\<open>urls\<close> and with a ZIP URL resolved, calls the tool with that URL right after the
  clock reading.
\<close>

theorem zip_fetch_retried_once:
  "fetch_count (snd (process_rent_roll_workflow env args fuel)) \<le> 2 \<and>
   (result_mode args = Urls \<longrightarrow>
      fetch_count (snd (process_rent_roll_workflow env args fuel)) = 0) \<and>
   (\<forall>pre m url rest.
      snd (process_rent_roll_workflow env args fuel) = pre @ ZipFetch m url # rest \<and>
      fetch_count pre = 0 \<longrightarrow>
        m = result_mode args \<and>
        rest =
          (case zip_tool env pre m url of
             Inl e \<Rightarrow> []
           | Inr zip_result \<Rightarrow>
               if \<not> zt_success zip_result \<and> zt_http_status zip_result = Some 403 then
                 (let refreshed = check_batch_status (status_reply env (pre @ [ZipFetch m url]));
                      new_url = (if truthy (dict_get refreshed ''zip_download_url'')
                                 then dict_get refreshed ''zip_download_url'' else url)
                  in
                  if truthy (dict_get refreshed ''success'') \<and> truthy new_url
                  then [StatusQuery, ZipFetch m new_url]
                  else [StatusQuery])
               else [])) \<and>
   (\<forall>last_status tr out.
      (strip (notification_email args) \<noteq> [] \<or> strip (environ_email env) \<noteq> []) \<and>
      truthy (dict_get (upload_rent_rolls env) ''success'') \<and>
      truthy (dict_get (upload_rent_rolls env) ''batchId'') \<and>
      poll_loop env (monotonic env [] + timeout_seconds args) fuel [ClockRead] =
        (PollBreak last_status, tr) \<and>
      resolve_output_dir env = Inr out \<and>
      \<not> (monotonic env [] + timeout_seconds args \<le> monotonic env tr \<and>
         \<not> is_terminal_status (dict_get_or last_status ''status'' (JStr []))) \<and>
      result_mode args \<noteq> Urls \<and>
      truthy (fst (resolve_pointer last_status)) \<longrightarrow>
        (\<exists>rest. snd (process_rent_roll_workflow env args fuel) =
                  tr @ ClockRead #
                    ZipFetch (result_mode args) (fst (resolve_pointer last_status)) # rest)) \<and>
   (\<forall>p. dict_get (check_batch_status (StatusPayload p)) ''zip_download_url'' =
          opt_str (zip_download_url (extract_zip_pointer p)))"
proof -
  have bound: "fetch_count (snd (process_rent_roll_workflow env args fuel)) \<le> 2"
    by (rule workflow_fetch_count)
  have urls: "result_mode args = Urls \<longrightarrow>
                fetch_count (snd (process_rent_roll_workflow env args fuel)) = 0"
    using workflow_urls_no_fetch [of args env fuel] by blast
  have first: "\<forall>pre m url rest.
      snd (process_rent_roll_workflow env args fuel) = pre @ ZipFetch m url # rest \<and>
      fetch_count pre = 0 \<longrightarrow>
        m = result_mode args \<and>
        rest =
          (case zip_tool env pre m url of
             Inl e \<Rightarrow> []
           | Inr zip_result \<Rightarrow>
               if \<not> zt_success zip_result \<and> zt_http_status zip_result = Some 403 then
                 (let refreshed = check_batch_status (status_reply env (pre @ [ZipFetch m url]));
                      new_url = (if truthy (dict_get refreshed ''zip_download_url'')
                                 then dict_get refreshed ''zip_download_url'' else url)
                  in
                  if truthy (dict_get refreshed ''success'') \<and> truthy new_url
                  then [StatusQuery, ZipFetch m new_url]
                  else [StatusQuery])
               else [])"
    using workflow_first_fetch [of env args fuel] by blast
  have made: "\<forall>last_status tr out.
      (strip (notification_email args) \<noteq> [] \<or> strip (environ_email env) \<noteq> []) \<and>
      truthy (dict_get (upload_rent_rolls env) ''success'') \<and>
      truthy (dict_get (upload_rent_rolls env) ''batchId'') \<and>
      poll_loop env (monotonic env [] + timeout_seconds args) fuel [ClockRead] =
        (PollBreak last_status, tr) \<and>
      resolve_output_dir env = Inr out \<and>
      \<not> (monotonic env [] + timeout_seconds args \<le> monotonic env tr \<and>
         \<not> is_terminal_status (dict_get_or last_status ''status'' (JStr []))) \<and>
      result_mode args \<noteq> Urls \<and>
      truthy (fst (resolve_pointer last_status)) \<longrightarrow>
        (\<exists>rest. snd (process_rent_roll_workflow env args fuel) =
                  tr @ ClockRead #
                    ZipFetch (result_mode args) (fst (resolve_pointer last_status)) # rest)"
    using workflow_fetches [of args env fuel] by blast
  have pointer: "\<forall>p. dict_get (check_batch_status (StatusPayload p)) ''zip_download_url'' =
          opt_str (zip_download_url (extract_zip_pointer p))"
    by (simp add: check_batch_status_payload(3))
  show ?thesis
    using bound urls first made pointer by (intro conjI)
qed

theorem zip_fetch_retried_once_witness:
  "snd (process_rent_roll_workflow
     (demo_env (replies_then (complete_with ''https://h/old.zip'') (complete_with ''https://h/new.zip''))
        (\<lambda>tr m u. if u = JStr ''https://h/new.zip'' then Inr fetched else Inr forbidden))
     (demo_args Manifest 900) 3) =
   [ClockRead, StatusQuery, ClockRead] @ ZipFetch Manifest (JStr ''https://h/old.zip'') #
     [StatusQuery, ZipFetch Manifest (JStr ''https://h/new.zip'')] \<and>
   fetch_count [ClockRead, StatusQuery, ClockRead] = 0 \<and>
   [StatusQuery, ZipFetch Manifest (JStr ''https://h/new.zip'')] =
     (case zip_tool
             (demo_env (replies_then (complete_with ''https://h/old.zip'')
                          (complete_with ''https://h/new.zip''))
                (\<lambda>tr m u. if u = JStr ''https://h/new.zip'' then Inr fetched else Inr forbidden))
             [ClockRead, StatusQuery, ClockRead] Manifest (JStr ''https://h/old.zip'') of
        Inl e \<Rightarrow> []
      | Inr zip_result \<Rightarrow>
          if \<not> zt_success zip_result \<and> zt_http_status zip_result = Some 403 then
            (let refreshed = check_batch_status (status_reply
                   (demo_env (replies_then (complete_with ''https://h/old.zip'')
                                (complete_with ''https://h/new.zip''))
                      (\<lambda>tr m u. if u = JStr ''https://h/new.zip'' then Inr fetched
                                 else Inr forbidden))
                   ([ClockRead, StatusQuery, ClockRead] @
                    [ZipFetch Manifest (JStr ''https://h/old.zip'')]));
                 new_url = (if truthy (dict_get refreshed ''zip_download_url'')
                            then dict_get refreshed ''zip_download_url''
                            else JStr ''https://h/old.zip'')
             in
             if truthy (dict_get refreshed ''success'') \<and> truthy new_url
             then [StatusQuery, ZipFetch Manifest new_url]
             else [StatusQuery])
          else []) \<and>
   fetch_count (snd (process_rent_roll_workflow
     (demo_env (replies_then (complete_with ''https://h/old.zip'') (complete_with ''https://h/new.zip''))
        (\<lambda>tr m u. if u = JStr ''https://h/new.zip'' then Inr fetched else Inr forbidden))
     (demo_args Manifest 900) 3)) \<le> 2 \<and>
   result_mode (demo_args Urls 900) = Urls \<and>
   fetch_count (snd (process_rent_roll_workflow
     (demo_env (replies_then (complete_with ''https://h/old.zip'') (complete_with ''https://h/new.zip''))
        (\<lambda>tr m u. if u = JStr ''https://h/new.zip'' then Inr fetched else Inr forbidden))
     (demo_args Urls 900) 3)) = 0 \<and>
   poll_loop
     (demo_env (replies_then (complete_with ''https://h/old.zip'') (complete_with ''https://h/new.zip''))
        (\<lambda>tr m u. if u = JStr ''https://h/new.zip'' then Inr fetched else Inr forbidden))
     (monotonic
        (demo_env (replies_then (complete_with ''https://h/old.zip'')
                     (complete_with ''https://h/new.zip''))
           (\<lambda>tr m u. if u = JStr ''https://h/new.zip'' then Inr fetched else Inr forbidden)) [] +
      timeout_seconds (demo_args Manifest 900)) 3 [ClockRead] =
     (PollBreak (check_batch_status (StatusPayload (complete_with ''https://h/old.zip''))),
      [ClockRead, StatusQuery]) \<and>
   fst (resolve_pointer (check_batch_status (StatusPayload (complete_with ''https://h/old.zip'')))) =
     JStr ''https://h/old.zip'' \<and>
   (\<exists>rest. snd (process_rent_roll_workflow
       (demo_env (replies_then (complete_with ''https://h/old.zip'') (complete_with ''https://h/new.zip''))
          (\<lambda>tr m u. if u = JStr ''https://h/new.zip'' then Inr fetched else Inr forbidden))
       (demo_args Manifest 900) 3) =
     [ClockRead, StatusQuery] @ ClockRead # ZipFetch Manifest (JStr ''https://h/old.zip'') # rest)"
proof -
  let ?env = "demo_env (replies_then (complete_with ''https://h/old.zip'')
                          (complete_with ''https://h/new.zip''))
        (\<lambda>tr m u. if u = JStr ''https://h/new.zip'' then Inr fetched else Inr forbidden)"
  let ?pre = "[ClockRead, StatusQuery, ClockRead]"
  let ?rest = "[StatusQuery, ZipFetch Manifest (JStr ''https://h/new.zip'')]"
  have run: "snd (process_rent_roll_workflow ?env (demo_args Manifest 900) 3) =
               ?pre @ ZipFetch Manifest (JStr ''https://h/old.zip'') # ?rest"
    by code_simp
  have pre: "fetch_count ?pre = 0"
    by code_simp
  have urls: "result_mode (demo_args Urls 900) = Urls"
    by (simp add: demo_args_def)
  have manifest: "result_mode (demo_args Manifest 900) = Manifest"
    by (simp add: demo_args_def)
  note here = zip_fetch_retried_once [of ?env "demo_args Manifest 900" 3]
  have first: "?rest =
     (case zip_tool ?env ?pre Manifest (JStr ''https://h/old.zip'') of
        Inl e \<Rightarrow> []
      | Inr zip_result \<Rightarrow>
          if \<not> zt_success zip_result \<and> zt_http_status zip_result = Some 403 then
            (let refreshed = check_batch_status (status_reply ?env
                   (?pre @ [ZipFetch Manifest (JStr ''https://h/old.zip'')]));
                 new_url = (if truthy (dict_get refreshed ''zip_download_url'')
                            then dict_get refreshed ''zip_download_url''
                            else JStr ''https://h/old.zip'')
             in
             if truthy (dict_get refreshed ''success'') \<and> truthy new_url
             then [StatusQuery, ZipFetch Manifest new_url]
             else [StatusQuery])
          else [])"
    using here run pre by blast
  have bound: "fetch_count (snd (process_rent_roll_workflow ?env (demo_args Manifest 900) 3)) \<le> 2"
    using here by blast
  have none: "fetch_count (snd (process_rent_roll_workflow ?env (demo_args Urls 900) 3)) = 0"
    using zip_fetch_retried_once [of ?env "demo_args Urls 900" 3] urls by blast
  let ?args = "demo_args Manifest 900"
  let ?last = "check_batch_status (StatusPayload (complete_with ''https://h/old.zip''))"
  have email: "strip (notification_email ?args) \<noteq> [] \<or> strip (environ_email ?env) \<noteq> []"
    by code_simp
  have upload: "truthy (dict_get (upload_rent_rolls ?env) ''success'')"
    by code_simp
  have batch: "truthy (dict_get (upload_rent_rolls ?env) ''batchId'')"
    by code_simp
  have poll: "poll_loop ?env (monotonic ?env [] + timeout_seconds ?args) 3 [ClockRead] =
                (PollBreak ?last, [ClockRead, StatusQuery])"
    by code_simp
  have outdir: "resolve_output_dir ?env = Inr (''/tmp/radix'', [])"
    by (simp add: demo_env_def)
  have terminal: "is_terminal_status (dict_get_or ?last ''status'' (JStr []))"
    by code_simp
  have url: "fst (resolve_pointer ?last) = JStr ''https://h/old.zip''"
    by code_simp
  have made: "\<exists>rest. snd (process_rent_roll_workflow ?env ?args 3) =
     [ClockRead, StatusQuery] @ ClockRead # ZipFetch Manifest (JStr ''https://h/old.zip'') # rest"
  proof -
    have "\<exists>rest. snd (process_rent_roll_workflow ?env ?args 3) =
            [ClockRead, StatusQuery] @ ClockRead #
              ZipFetch (result_mode ?args) (fst (resolve_pointer ?last)) # rest"
      using here email upload batch poll outdir terminal manifest url
      by (simp add: truthy.simps)
    then show ?thesis
      by (simp only: manifest url)
  qed
  show ?thesis
    using run pre first bound urls none poll url made by (intro conjI)
qed

text \<open>
  C3 as stated fails where the refreshed snapshot has no pointer: the status query after
  the 403 succeeds, the resolver finds no URL in the fresh payload, and the tool is called
  again with the previous URL.
\<close>

theorem retry_without_refreshed_pointer_uses_previous_url:
  "extract_zip_pointer [(''status'', JStr ''complete'')] =
     \<lparr>zip_download_url = None, zip_presigned_expires_at = None\<rparr> \<and>
   snd (process_rent_roll_workflow
     (demo_env (replies_then (complete_with ''https://h/old.zip'') [(''status'', JStr ''complete'')])
        (\<lambda>tr m u. Inr forbidden))
     (demo_args Manifest 900) 3) =
   [ClockRead, StatusQuery, ClockRead, ZipFetch Manifest (JStr ''https://h/old.zip''),
    StatusQuery, ZipFetch Manifest (JStr ''https://h/old.zip'')]"
  by code_simp

lemma timed_out_result_timed_out: "timed_out (timed_out_result result)"
  by (simp add: timed_out_def timed_out_result_def dict_get_dict_set)

text \<open>A loop that ends with a status that is not terminal has ended by the deadline.\<close>

lemma poll_break_by_deadline:
  assumes "poll_loop env deadline fuel tr = (PollBreak last_status, tr')"
    and "\<not> is_terminal_status (dict_get_or last_status ''status'' (JStr []))"
  shows "\<exists>tr1. tr' = tr1 @ [ClockRead] \<and> deadline \<le> monotonic env tr1"
  using assms
proof (induction fuel arbitrary: tr)
  case 0
  then show ?case by simp
next
  case (Suc fuel)
  let ?resp = "check_batch_status (status_reply env tr)"
  show ?case
  proof (cases "truthy (dict_get ?resp ''success'') \<and>
                \<not> is_terminal_status (dict_get_or ?resp ''status'' (JStr []))")
    case False
    then show ?thesis
      using Suc.prems by (auto simp: Let_def split: if_splits)
  next
    case ok: True
    show ?thesis
    proof (cases "deadline \<le> monotonic env (tr @ [StatusQuery])")
      case True
      then have "tr' = (tr @ [StatusQuery]) @ [ClockRead]"
        using Suc.prems(1) ok by (simp add: Let_def)
      then show ?thesis using True by blast
    next
      case False
      then have "poll_loop env deadline fuel (tr @ [StatusQuery, ClockRead, Sleep]) =
                 (PollBreak last_status, tr')"
        using Suc.prems(1) ok by (simp add: Let_def)
      then show ?thesis
        using Suc.IH Suc.prems(2) by blast
    qed
  qed
qed

lemma after_poll_timed_out:
  assumes "resolve_output_dir env = Inr out"
    and "deadline \<le> monotonic env tr"
    and "\<not> is_terminal_status (dict_get_or last_status ''status'' (JStr []))"
  shows "\<exists>result. after_poll env args batch_id deadline last_status tr =
                    (Returned result, tr @ [ClockRead]) \<and> timed_out result"
  using assms timed_out_result_timed_out
  by (cases out) (auto simp: after_poll_def Let_def split: prod.splits)

text \<open>
  Where no status is terminal and the clock passes the deadline, the loop ends by the
  deadline once it has fuel for enough rounds.
\<close>

lemma poll_loop_reaches_deadline:
  assumes never_terminal: "\<forall>t. \<exists>p. status_reply env t = StatusPayload p \<and>
                          \<not> is_terminal_status (dict_get p ''status'')"
    and reached: "\<forall>t. n \<le> length t \<longrightarrow> deadline \<le> monotonic env t"
  shows "0 < fuel \<Longrightarrow> n \<le> length tr + fuel \<Longrightarrow>
         \<exists>last_status tr'. poll_loop env deadline fuel tr = (PollBreak last_status, tr') \<and>
            \<not> is_terminal_status (dict_get_or last_status ''status'' (JStr []))"
proof (induction fuel arbitrary: tr)
  case 0
  then show ?case by simp
next
  case (Suc fuel)
  obtain p where p: "status_reply env tr = StatusPayload p"
      "\<not> is_terminal_status (dict_get p ''status'')"
    using never_terminal by blast
  let ?resp = "check_batch_status (StatusPayload p)"
  have ok: "truthy (dict_get ?resp ''success'')"
    and nt: "\<not> is_terminal_status (dict_get_or ?resp ''status'' (JStr []))"
    using p(2) by (simp_all add: check_batch_status_payload)
  show ?case
  proof (cases "deadline \<le> monotonic env (tr @ [StatusQuery])")
    case True
    then have "poll_loop env deadline (Suc fuel) tr =
               (PollBreak ?resp, tr @ [StatusQuery] @ [ClockRead])"
      using p(1) ok nt by (simp add: Let_def)
    then show ?thesis using nt by blast
  next
    case False
    then have short: "length (tr @ [StatusQuery]) < n"
      using reached by (meson not_le)
    then have fuel: "0 < fuel" "n \<le> length (tr @ [StatusQuery, ClockRead, Sleep]) + fuel"
      using Suc.prems by simp_all
    have "poll_loop env deadline (Suc fuel) tr =
          poll_loop env deadline fuel (tr @ [StatusQuery, ClockRead, Sleep])"
      using p(1) ok nt False by (simp add: Let_def)
    then show ?thesis
      using Suc.IH [OF fuel] by simp
  qed
qed

text \<open>
  C5. A run that gets to the polling (an email is given, the upload succeeded, the output
  directory resolves) under a clock that never goes back: when the polling loop ends
  without a terminal status, that is by the deadline, the call returns a result with
  \<^verbatim>\<open>success\<close> false and the error \<^verbatim>\<open>Workflow timed out\<close>, which is not the network
  error. And the call does return it: where no status reply is terminal and the clock
  passes the deadline, every run with fuel for enough rounds ends so.
\<close>

theorem polling_deadline_gives_timeout:
  assumes email: "strip (notification_email args) \<noteq> [] \<or> strip (environ_email env) \<noteq> []"
    and upload: "truthy (dict_get (upload_rent_rolls env) ''success'')"
    and batch: "truthy (dict_get (upload_rent_rolls env) ''batchId'')"
    and outdir: "resolve_output_dir env = Inr out"
    and mono: "\<forall>t t'. monotonic env t \<le> monotonic env (t @ t')"
  shows "(\<forall>fuel last_status tr.
            poll_loop env (monotonic env [] + timeout_seconds args) fuel [ClockRead] =
              (PollBreak last_status, tr) \<and>
            \<not> is_terminal_status (dict_get_or last_status ''status'' (JStr [])) \<longrightarrow>
            (\<exists>result. process_rent_roll_workflow env args fuel =
                        (Returned result, tr @ [ClockRead]) \<and> timed_out result)) \<and>
         ((\<forall>t. \<exists>p. status_reply env t = StatusPayload p \<and>
                  \<not> is_terminal_status (dict_get p ''status'')) \<and>
          (\<forall>t. n \<le> length t \<longrightarrow> monotonic env [] + timeout_seconds args \<le> monotonic env t) \<longrightarrow>
            (\<forall>fuel. 0 < fuel \<and> n \<le> fuel \<longrightarrow>
               (\<exists>result tr. process_rent_roll_workflow env args fuel = (Returned result, tr) \<and>
                             timed_out result)))"
proof -
  let ?d = "monotonic env [] + timeout_seconds args"
  have A: "\<exists>result. process_rent_roll_workflow env args fuel =
                      (Returned result, tr @ [ClockRead]) \<and> timed_out result"
    if loop: "poll_loop env ?d fuel [ClockRead] = (PollBreak last_status, tr)"
      and nt: "\<not> is_terminal_status (dict_get_or last_status ''status'' (JStr []))"
    for fuel last_status tr
  proof -
    obtain tr1 where tr1: "tr = tr1 @ [ClockRead]" "?d \<le> monotonic env tr1"
      using poll_break_by_deadline [OF loop nt] by blast
    have "monotonic env tr1 \<le> monotonic env tr"
      using mono tr1(1) by simp
    then have late: "?d \<le> monotonic env tr"
      using tr1(2) by simp
    show ?thesis
      using workflow_reaches_poll [OF email upload batch loop]
        after_poll_timed_out [OF outdir late nt]
      by simp
  qed
  have B: "\<exists>result tr. process_rent_roll_workflow env args fuel = (Returned result, tr) \<and>
                         timed_out result"
    if never_terminal: "\<forall>t. \<exists>p. status_reply env t = StatusPayload p \<and>
                          \<not> is_terminal_status (dict_get p ''status'')"
      and reached: "\<forall>t. n \<le> length t \<longrightarrow> ?d \<le> monotonic env t"
      and fuel: "0 < fuel" "n \<le> fuel"
    for fuel
  proof -
    have "n \<le> length [ClockRead] + fuel" using fuel by simp
    then obtain last_status tr where
      "poll_loop env ?d fuel [ClockRead] = (PollBreak last_status, tr)"
      "\<not> is_terminal_status (dict_get_or last_status ''status'' (JStr []))"
      using poll_loop_reaches_deadline [OF never_terminal reached fuel(1)] by blast
    then show ?thesis using A by blast
  qed
  show ?thesis using A B by blast
qed

theorem polling_deadline_gives_timeout_witness:
  "\<exists>result tr.
     process_rent_roll_workflow (demo_env always_processing (\<lambda>tr m u. Inr fetched))
       (demo_args Extract 5) 5 = (Returned result, tr) \<and>
     dict_get result ''success'' = JBool False \<and>
     dict_get result ''error'' = JStr ''Workflow timed out''"
proof -
  let ?env = "demo_env always_processing (\<lambda>tr m u. Inr fetched)"
  let ?args = "demo_args Extract 5"
  have email: "strip (notification_email ?args) \<noteq> [] \<or> strip (environ_email ?env) \<noteq> []"
    by code_simp
  have upload: "truthy (dict_get (upload_rent_rolls ?env) ''success'')"
    by code_simp
  have batch: "truthy (dict_get (upload_rent_rolls ?env) ''batchId'')"
    by code_simp
  have outdir: "resolve_output_dir ?env = Inr (''/tmp/radix'', [])"
    by (simp add: demo_env_def)
  have mono: "\<forall>t t'. monotonic ?env t \<le> monotonic ?env (t @ t')"
    by (simp add: demo_env_def)
  have processing: "\<not> is_terminal_status (JStr ''processing'')"
    by code_simp
  have never_terminal: "\<forall>t. \<exists>p. status_reply ?env t = StatusPayload p \<and>
                          \<not> is_terminal_status (dict_get p ''status'')"
    using processing by (simp add: demo_env_def always_processing_def dict_get_def)
  have reached: "\<forall>t. 5 \<le> length t \<longrightarrow>
                   monotonic ?env [] + timeout_seconds ?args \<le> monotonic ?env t"
    by (simp add: demo_env_def demo_args_def)
  have "\<exists>result tr. process_rent_roll_workflow ?env ?args 5 = (Returned result, tr) \<and>
                      timed_out result"
    using polling_deadline_gives_timeout [OF email upload batch outdir mono, of 5]
      never_terminal reached
    by simp
  then show ?thesis
    by (auto simp: timed_out_def)
qed

end
